theory Spec2Isabelle
  imports Complex_Main "HOL-Library.Signed_Division"
begin

section \<open>Data model of HOOF\<close>

text \<open>
  A C++ \<^verbatim>\<open>double\<close> is modelled as an optional real number: \<open>None\<close> is NaN, \<open>Some x\<close> is
  the finite value \<open>x\<close>. An operation with a NaN operand gives NaN and a comparison with a
  NaN operand is false, as in IEEE 754. The operations \<open>dadd\<close>, \<open>dsub\<close> and \<open>dmul\<close> are exact
  on finite values; the operations \<open>fadd\<close>, \<open>fsub\<close>, \<open>fmul\<close> and \<open>fdiv\<close> further down round
  their result to binary64, and are used where the outcome depends on the rounding. The
  infinities occur in the source as the start values of running minima and maxima; they
  are modelled where they occur.
  A \<^verbatim>\<open>std::vector\<close> is a list, \<^verbatim>\<open>vector2D\<close> and \<^verbatim>\<open>vector3D\<close> are nested lists, and a
  C++ \<^verbatim>\<open>int\<close> is an integer; the product \<^verbatim>\<open>naz*binF\<close> of \<^verbatim>\<open>_calculateBinBorders\<close>, which
  can leave 32 bits for a large bin factor, is written with its wrap-around.
\<close>

type_synonym double = "real option"

abbreviation dNaN :: double where
  "dNaN \<equiv> None"

text \<open>\<^verbatim>\<open>hoof::iNaN\<close> is \<^verbatim>\<open>std::numeric_limits<int>::quiet_NaN()\<close>, which is \<open>0\<close> for \<^verbatim>\<open>int\<close>.\<close>

definition iNaN :: int where
  "iNaN = 0"

definition isnan :: "double \<Rightarrow> bool" where
  "isnan v = (v = None)"

text \<open>\<^verbatim>\<open>std::isnan\<close> applied to an \<^verbatim>\<open>int\<close> converts it to \<^verbatim>\<open>double\<close> first.\<close>

definition isnan_int :: "int \<Rightarrow> bool" where
  "isnan_int n = isnan (Some (real_of_int n))"

definition dlt :: "double \<Rightarrow> double \<Rightarrow> bool" where
  "dlt a b = (case a of None \<Rightarrow> False | Some x \<Rightarrow> (case b of None \<Rightarrow> False | Some y \<Rightarrow> x < y))"

definition dadd :: "double \<Rightarrow> double \<Rightarrow> double" where
  "dadd a b = (case a of None \<Rightarrow> None | Some x \<Rightarrow> (case b of None \<Rightarrow> None | Some y \<Rightarrow> Some (x + y)))"

definition dsub :: "double \<Rightarrow> double \<Rightarrow> double" where
  "dsub a b = (case a of None \<Rightarrow> None | Some x \<Rightarrow> (case b of None \<Rightarrow> None | Some y \<Rightarrow> Some (x - y)))"

definition dmul :: "double \<Rightarrow> double \<Rightarrow> double" where
  "dmul a b = (case a of None \<Rightarrow> None | Some x \<Rightarrow> (case b of None \<Rightarrow> None | Some y \<Rightarrow> Some (x * y)))"

definition dabs :: "double \<Rightarrow> double" where
  "dabs a = map_option abs a"

definition dbl :: "int \<Rightarrow> double" where
  "dbl n = Some (real_of_int n)"

subsection \<open>Rounding to binary64\<close>

text \<open>
  Where the outcome hangs on a comparison or a conversion of computed doubles (the misfit
  of the Nyquist search; gain, offset and bytes of the writers) every operation is rounded
  as IEEE 754 binary64 rounds it, to the nearest double with ties to the even one. A finite
  double is \<open>m \<cdot> 2 ^ e\<close> with \<open>|m| < 2 ^ 53\<close> and \<open>-1074 \<le> e \<le> 971\<close>; \<open>ulpExp x\<close> is the exponent
  \<open>e\<close> of the grid that \<open>x\<close> is rounded on, the least one from \<open>-1074\<close> with \<open>|x| < 2 ^ (e + 53)\<close>
  and \<open>971\<close> at most. A rounded value of magnitude \<open>2 ^ 1024\<close> or more is an infinity. In the
  places where rounding is modelled an infinity behaves as NaN does (a misfit that is
  infinite is never less than the running minimum, an infinite gain or offset leaves no defined
  conversion to a byte), so it is \<open>None\<close> as well.
\<close>

function ulpFrom :: "real \<Rightarrow> int \<Rightarrow> int" where
  "ulpFrom a e = (if e < 971 \<and> 2 powi (e + 53) \<le> a then ulpFrom a (e + 1) else e)"
  by auto
termination
  by (relation "measure (\<lambda>(a, e). nat (971 - e))") auto

definition ulpExp :: "real \<Rightarrow> int" where
  "ulpExp x = ulpFrom \<bar>x\<bar> (- 1074)"

definition roundEven :: "real \<Rightarrow> int" where
  "roundEven y =
     (let f = \<lfloor>y\<rfloor>
      in if y - real_of_int f < 1 / 2 then f
         else if 1 / 2 < y - real_of_int f then f + 1
         else if even f then f else f + 1)"

definition fl :: "real \<Rightarrow> double" where
  "fl x =
     (let e = ulpExp x;
          y = real_of_int (roundEven (x / 2 powi e)) * 2 powi e
      in if \<bar>y\<bar> < 2 ^ 1024 then Some y else None)"

definition fadd :: "double \<Rightarrow> double \<Rightarrow> double" where
  "fadd a b = (case a of None \<Rightarrow> None | Some x \<Rightarrow> (case b of None \<Rightarrow> None | Some y \<Rightarrow> fl (x + y)))"

definition fsub :: "double \<Rightarrow> double \<Rightarrow> double" where
  "fsub a b = (case a of None \<Rightarrow> None | Some x \<Rightarrow> (case b of None \<Rightarrow> None | Some y \<Rightarrow> fl (x - y)))"

definition fmul :: "double \<Rightarrow> double \<Rightarrow> double" where
  "fmul a b = (case a of None \<Rightarrow> None | Some x \<Rightarrow> (case b of None \<Rightarrow> None | Some y \<Rightarrow> fl (x * y)))"

text \<open>A zero divisor gives an infinity or NaN.\<close>

definition fdiv :: "double \<Rightarrow> double \<Rightarrow> double" where
  "fdiv a b = (case a of None \<Rightarrow> None
     | Some x \<Rightarrow> (case b of None \<Rightarrow> None | Some y \<Rightarrow> if y = 0 then None else fl (x / y)))"

record HoofMeasurement =
  datasets :: "string list"
  nel :: int
  nazMax :: int
  nrMax :: int
  elangles :: "double list"
  naz :: "int list"
  azimuths :: "double list list"
  nr :: "int list"
  ranges :: "double list list"
  rscales :: "double list"
  rstarts :: "double list"
  vnys :: "double list"
  meas :: "double list list list"
  ths :: "double list list list"
  quals :: "double list list list"
  zs :: "double list list list"

text \<open>A default-constructed \<^verbatim>\<open>HoofMeasurement\<close>: empty vectors, no elevation.\<close>

definition emptyMeasurement :: HoofMeasurement where
  "emptyMeasurement = \<lparr> datasets = [], nel = 0, nazMax = 0, nrMax = 0, elangles = [],
     naz = [], azimuths = [], nr = [], ranges = [], rscales = [], rstarts = [], vnys = [],
     meas = [], ths = [], quals = [], zs = [] \<rparr>"

type_synonym Triple = "nat \<times> nat \<times> nat"

record HoofData =
  height :: real
  dbz :: HoofMeasurement
  vrad :: HoofMeasurement
  zStarts :: "real list"
  zEnds :: "real list"
  zIdxs :: "Triple list list"
  wModels :: "double list list list"
  dvrads :: "double list list list"
  sdbz :: HoofMeasurement
  svrad :: HoofMeasurement

subsection \<open>HoofAux\<close>

definition isallnan2 :: "double list list \<Rightarrow> bool" where
  "isallnan2 vec = list_all (list_all isnan) vec"

definition isallnan3 :: "double list list list \<Rightarrow> bool" where
  "isallnan3 vec = list_all (list_all (list_all isnan)) vec"

text \<open>
  \<^verbatim>\<open>HoofAux::nanminmax\<close> on a 2-D vector. The running minimum starts at \<open>+\<infinity>\<close> and the
  running maximum at \<open>-\<infinity>\<close> (here \<open>None\<close>); a bound that is still infinite at the end is
  returned as NaN.
\<close>

definition minmaxStep :: "double \<Rightarrow> real option \<times> real option \<Rightarrow> real option \<times> real option" where
  "minmaxStep v = (\<lambda>(mn, mx).
     (case v of
        None \<Rightarrow> (mn, mx)
      | Some x \<Rightarrow>
          ((case mn of None \<Rightarrow> Some x | Some m \<Rightarrow> if x < m then Some x else Some m),
           (case mx of None \<Rightarrow> Some x | Some m \<Rightarrow> if x > m then Some x else Some m))))"

definition nanminmax2 :: "double list list \<Rightarrow> double \<times> double" where
  "nanminmax2 vec = fold (\<lambda>row. fold minmaxStep row) vec (None, None)"

definition nanminmax3 :: "double list list list \<Rightarrow> double \<times> double" where
  "nanminmax3 vec = fold (\<lambda>plane. fold (\<lambda>row. fold minmaxStep row) plane) vec (None, None)"

text \<open>
  \<^verbatim>\<open>HoofAux::dblEpsilon\<close> is the literal \<^verbatim>\<open>0.000000000001\<close>, that is the double nearest to it,
  and \<^verbatim>\<open>eqDbl\<close> is \<^verbatim>\<open>std::abs(val1 - val2) <= dblEpsilon\<close> with a rounded difference.
\<close>

definition dblEpsilon :: real where
  "dblEpsilon = 4951760157141521 / 2 ^ 92"

definition eqDbl :: "double \<Rightarrow> double \<Rightarrow> bool" where
  "eqDbl val1 val2 = (case dabs (fsub val1 val2) of None \<Rightarrow> False | Some x \<Rightarrow> x \<le> dblEpsilon)"

subsection \<open>Cubes\<close>

text \<open>\<^verbatim>\<open>vector3D<T>(a, vector2D<T>(b, vector<T>(c, v)))\<close>, a read and a write of one cell.\<close>

definition cube :: "nat \<Rightarrow> nat \<Rightarrow> nat \<Rightarrow> 'a \<Rightarrow> 'a list list list" where
  "cube a b c v = replicate a (replicate b (replicate c v))"

definition at3 :: "'a list list list \<Rightarrow> nat \<Rightarrow> nat \<Rightarrow> nat \<Rightarrow> 'a" where
  "at3 c i j k = c ! i ! j ! k"

definition put3 :: "'a list list list \<Rightarrow> nat \<Rightarrow> nat \<Rightarrow> nat \<Rightarrow> 'a \<Rightarrow> 'a list list list" where
  "put3 c i j k v = c[i := (c ! i)[j := (c ! i ! j)[k := v]]]"

text \<open>
  The loop nest \<^verbatim>\<open>for(i<nel) for(j<naz[i]) for(k<nr[i]) body\<close> over the bins of a
  moment, threading the state \<open>s\<close> that the body changes.
\<close>

definition sweep :: "HoofMeasurement \<Rightarrow> (nat \<Rightarrow> nat \<Rightarrow> nat \<Rightarrow> 's \<Rightarrow> 's) \<Rightarrow> 's \<Rightarrow> 's" where
  "sweep m body s =
     fold (\<lambda>i. fold (\<lambda>j. fold (\<lambda>k. body i j k) [0..<nat (nr m ! i)]) [0..<nat (naz m ! i)])
       [0..<nat (nel m)] s"

subsection \<open>HoofWorker: warnings and errors\<close>

record HoofWorker =
  classMessage :: string
  warnings :: "string list"
  errors :: "string list"

definition warning :: "string \<Rightarrow> HoofWorker \<Rightarrow> HoofWorker" where
  "warning warn w = w\<lparr> warnings := warnings w @ [classMessage w @ '' - '' @ warn] \<rparr>"

definition error :: "string \<Rightarrow> HoofWorker \<Rightarrow> HoofWorker" where
  "error err w = w\<lparr> errors := errors w @ [classMessage w @ '' - '' @ err] \<rparr>"

text \<open>The workers as their constructors leave them.\<close>

definition newDealiaser :: HoofWorker where
  "newDealiaser = \<lparr> classMessage = ''Dealiasing'', warnings = [], errors = [] \<rparr>"

definition newSuperober :: HoofWorker where
  "newSuperober = \<lparr> classMessage = ''Superobing'', warnings = [], errors = [] \<rparr>"

section \<open>The check stages\<close>

text \<open>\<^verbatim>\<open>HoofDealiaser::checkData\<close>: two independent tests, each appending an error.\<close>

definition dealiaser_checkData :: "HoofData \<Rightarrow> HoofWorker \<Rightarrow> HoofWorker" where
  "dealiaser_checkData d w =
     (let w1 = (if length (datasets (vrad d)) = 0 then error ''no VRAD datasets in file'' w else w)
      in if isallnan3 (meas (vrad d)) then error ''all data in VRAD datasets are NaN'' w1 else w1)"

text \<open>
  \<^verbatim>\<open>HoofSuperober::checkData\<close>: returns early after the first error; the two flags
  \<^verbatim>\<open>_dbzsNaN\<close> and \<^verbatim>\<open>_vradsNaN\<close> are \<^verbatim>\<open>false\<close> after construction.
\<close>

definition superober_checkData :: "HoofData \<Rightarrow> HoofWorker \<Rightarrow> HoofWorker" where
  "superober_checkData d w =
     (if nel (dbz d) = 0 \<and> nel (vrad d) = 0 then error ''no data to superob'' w
      else
        let dbzsNaN = isallnan3 (meas (dbz d));
            vradsNaN = isallnan3 (meas (vrad d));
            w1 = (if dbzsNaN \<and> vradsNaN then error ''all data is NaN'' w else w);
            w2 = (if dbzsNaN \<and> \<not> vradsNaN then warning ''all DBZ data is NaN'' w1 else w1)
        in if \<not> dbzsNaN \<and> vradsNaN then warning ''all VRAD data is NaN'' w2 else w2)"

text \<open>
  The homogenizer sets \<^verbatim>\<open>nel\<close> to the number of datasets and allocates the measurement
  cube with \<^verbatim>\<open>nel\<close> planes; a moment without datasets keeps its empty cube.
\<close>

definition stored :: "HoofMeasurement \<Rightarrow> bool" where
  "stored m = (nel m = int (length (datasets m)) \<and> length (meas m) = length (datasets m))"

section \<open>Settings and faults\<close>

record HoofSettings =
  dealiasing :: bool
  zSectorSize :: real
  zMax :: real
  minGoodPoints :: int
  maxWind :: real
  superobing :: bool
  rangeBinFactor :: int
  rayAngleFactor :: int
  maxArcSize :: real
  minQuality :: real
  dbzClearsky :: real
  dbzPercentage :: real
  vradPercentage :: real
  vradMaxStd :: real

text \<open>
  What C++ leaves undefined or answers with an exception is a value of the model: an
  integer division by zero, a read or write outside a vector, a vector of negative size,
  the conversion of a NaN or an infinity to \<^verbatim>\<open>int\<close>, and a loop that never ends.
\<close>

datatype fault = DivisionByZero | OutOfRange | BadAlloc | NotFinite | Diverges

definition Pi :: real where
  "Pi = 3.14159265358979323846"

text \<open>\<^verbatim>\<open>HoofAux::linspace\<close>; the comparison \<^verbatim>\<open>n > vec.size()\<close> is unsigned, and a negative
  \<open>n\<close> leaves the vector as it is either way.\<close>

definition linspace :: "double list \<Rightarrow> double \<Rightarrow> double \<Rightarrow> int \<Rightarrow> double list" where
  "linspace vec a b n =
     (if n < 0 \<or> n > int (length vec) \<or> n < 1 then vec
      else let step = map_option (\<lambda>x. x / real_of_int n) (dsub b a)
           in fold (\<lambda>i v. v[i := dadd a (dmul (dbl (int i)) step)]) [0..<nat n] vec)"

text \<open>\<^verbatim>\<open>*std::max_element(v.begin(), v.end())\<close> on a vector that is not empty.\<close>

definition max_element :: "int list \<Rightarrow> int" where
  "max_element v = fold max (tl v) (hd v)"

section \<open>Superober: grid preparation\<close>

text \<open>
  \<^verbatim>\<open>HoofSuperober::prepareMetadata\<close> runs the same block for DBZ and for VRAD;
  \<open>prepareMoment\<close> is that block, from the source moment \<open>src\<close> to the superobed moment
  \<open>dst\<close>. The first loop divides by both factors in its first iteration.
\<close>

definition prepareDims :: "int \<Rightarrow> int \<Rightarrow> HoofMeasurement \<Rightarrow> nat \<Rightarrow> int list \<times> int list \<Rightarrow> int list \<times> int list" where
  "prepareDims binF rayF src i = (\<lambda>(snr, snaz).
     (snr[i := (nr src ! i) sdiv binF], snaz[i := (naz src ! i) sdiv rayF]))"

definition prepareCoords :: "int \<Rightarrow> HoofMeasurement \<Rightarrow> int list \<Rightarrow> int list \<Rightarrow> nat
    \<Rightarrow> double list list \<times> double list \<times> double list \<times> double list list
    \<Rightarrow> double list list \<times> double list \<times> double list \<times> double list list" where
  "prepareCoords binF src snaz snr i = (\<lambda>(sazimuths, srstarts, srscales, sranges).
     (let a = snaz ! i;
          r = snr ! i;
          rstart = rstarts src ! i;
          rscale = rscales src ! i
      in (sazimuths[i := linspace (sazimuths ! i) (Some 0) (Some (2 * Pi)) a],
          srstarts[i := rstart],
          srscales[i := dmul (dbl binF) rscale],
          sranges[i := linspace (sranges ! i) rstart
                         (dadd rstart (dmul (dmul (dbl binF) rscale) (dbl r))) r])))"

definition prepareMoment :: "int \<Rightarrow> int \<Rightarrow> HoofMeasurement \<Rightarrow> HoofMeasurement \<Rightarrow> fault + HoofMeasurement" where
  "prepareMoment binF rayF src dst =
     (let n = nat (nel src);
          dst1 = dst\<lparr> naz := replicate n iNaN, nr := replicate n iNaN \<rparr>
      in if nel src > 0 then
           if binF = 0 \<or> rayF = 0 then Inl DivisionByZero
           else
             let (snr, snaz) = fold (prepareDims binF rayF src) [0..<n] (nr dst1, naz dst1);
                 snrMax = max_element snr;
                 snazMax = max_element snaz
             in if snrMax < 0 \<or> snazMax < 0 then Inl BadAlloc
                else
                  let (sazimuths, srstarts, srscales, sranges) =
                        fold (prepareCoords binF src snaz snr) [0..<n]
                          (replicate n (replicate (nat snazMax) dNaN), replicate n dNaN,
                           replicate n dNaN, replicate n (replicate (nat snrMax) dNaN))
                  in Inr (dst1\<lparr> nel := nel src, nr := snr, naz := snaz,
                            nrMax := snrMax, nazMax := snazMax, elangles := elangles src,
                            azimuths := sazimuths, ranges := sranges,
                            rscales := srscales, rstarts := srstarts \<rparr>)
         else Inr dst1)"

definition prepareMetadata :: "HoofSettings \<Rightarrow> HoofData \<Rightarrow> fault + HoofData" where
  "prepareMetadata st d =
     (case prepareMoment (rangeBinFactor st) (rayAngleFactor st) (dbz d) (sdbz d) of
        Inl f \<Rightarrow> Inl f
      | Inr sd \<Rightarrow>
          (case prepareMoment (rangeBinFactor st) (rayAngleFactor st) (vrad d) (svrad d) of
             Inl f \<Rightarrow> Inl f
           | Inr sv \<Rightarrow> Inr (d\<lparr> sdbz := sd, svrad := sv \<rparr>)))"

section \<open>Superober: bin borders\<close>

text \<open>
  The loop \<^verbatim>\<open>for(int j=start; j<bound; j=j+step) acc.push_back(j);\<close>, which does not
  end when \<open>step \<le> 0\<close> and \<open>start < bound\<close>: \<open>None\<close> is "never returns".
\<close>

partial_function (option) countUp :: "int \<Rightarrow> int \<Rightarrow> int \<Rightarrow> int list \<Rightarrow> int list option" where
  "countUp j bound step acc =
     (if j < bound then countUp (j + step) bound step (acc @ [j]) else Some acc)"

text \<open>Range bin borders of one elevation; \<^verbatim>\<open>back()\<close> of an empty vector is a fault.\<close>

definition rangeBorders :: "int \<Rightarrow> int \<Rightarrow> fault + int list" where
  "rangeBorders binF nr0 =
     (case countUp 0 (nr0 + binF) binF [] of
        None \<Rightarrow> Inl Diverges
      | Some borders \<Rightarrow>
          if borders = [] then Inl OutOfRange
          else if last borders > nr0 then Inr (butlast borders)
          else Inr borders)"

text \<open>
  One pass of the loop on \<open>z\<close>: the new \<^verbatim>\<open>limIdx\<close>, then the two pushes. The comparison
  of \<^verbatim>\<open>limIdx\<close> with the vector's size is unsigned, so a negative \<^verbatim>\<open>limIdx\<close> counts as
  large. In the source only the line
  \<^verbatim>\<open>limIdxs.push_back(limIdx)\<close> is governed by the \<^verbatim>\<open>if\<close>; \<^verbatim>\<open>facSubs.push_back(z)\<close>
  runs in every pass.
\<close>

definition limIdxAt :: "real \<Rightarrow> int \<Rightarrow> int \<Rightarrow> int \<Rightarrow> int" where
  "limIdxAt L zmax sz z =
     (let newFac = 2 * (zmax - z) + 1;
          limIdx = \<lfloor>L / real_of_int newFac - 1\<rfloor> + 1
      in if limIdx < 0 \<or> limIdx \<ge> sz then sz else limIdx)"

definition limStep :: "real \<Rightarrow> int \<Rightarrow> int \<Rightarrow> int \<Rightarrow> int list \<times> int list \<Rightarrow> int list \<times> int list" where
  "limStep L zmax sz z = (\<lambda>(limIdxs, facSubs).
     (let limIdx = limIdxAt L zmax sz z
      in (if limIdx \<noteq> last limIdxs then limIdxs @ [limIdx] else limIdxs, facSubs @ [z])))"

definition rayLimits :: "real \<Rightarrow> int \<Rightarrow> int \<Rightarrow> int list \<times> int list" where
  "rayLimits L zmax sz =
     (let (limIdxs, facSubs) = fold (limStep L zmax sz) [0..zmax] ([0], [])
      in (if 0 \<le> last limIdxs \<and> last limIdxs < sz
          then limIdxs[length limIdxs - 1 := sz] else limIdxs, facSubs))"

text \<open>
  \<^verbatim>\<open>limIdxs\<close> gets a new entry only when the limit changes, \<^verbatim>\<open>facSubs\<close> one in every pass, so
  the search below can ask for \<^verbatim>\<open>limIdxs[k]\<close> with \<open>k\<close> at or beyond the vector's size.
  \<^verbatim>\<open>operator[]\<close> does not check: the program reads the \<^verbatim>\<open>int\<close> that lies in memory behind
  the vector's storage and goes on. What it finds there is not fixed by the program; it
  is the parameter \<open>behind\<close>, from the index read to the value found.
\<close>

definition peek :: "int list \<Rightarrow> (nat \<Rightarrow> int) \<Rightarrow> nat \<Rightarrow> int" where
  "peek xs behind k = (if k < length xs then xs ! k else behind k)"

text \<open>
  The search \<^verbatim>\<open>for(k<facSubs.size()) if(j >= limIdxs[k] && j < limIdxs[k+1]) currFacSub = facSubs[k];\<close>
\<close>

fun facSubLoop :: "int list \<Rightarrow> int list \<Rightarrow> (nat \<Rightarrow> int) \<Rightarrow> int \<Rightarrow> nat list \<Rightarrow> int \<Rightarrow> int" where
  "facSubLoop limIdxs facSubs behind j [] currFacSub = currFacSub"
| "facSubLoop limIdxs facSubs behind j (k # ks) currFacSub =
     (if j \<ge> peek limIdxs behind k \<and> j < peek limIdxs behind (k + 1)
      then facSubLoop limIdxs facSubs behind j ks (facSubs ! k)
      else facSubLoop limIdxs facSubs behind j ks currFacSub)"

text \<open>
  The loop on the superobed range index \<open>j\<close>; \<^verbatim>\<open>currFacSub\<close> lives across its passes. The
  rows of the two tables are written between two searches, so what lies behind \<^verbatim>\<open>limIdxs\<close>
  may differ from one pass to the next: \<open>behind j\<close> is the memory as pass \<open>j\<close> finds it. The
  reads of \<^verbatim>\<open>origStartRayBorders\<close> and \<^verbatim>\<open>origEndRayBorders\<close> are inside these vectors for
  every superobed grid that \<^verbatim>\<open>prepareMetadata\<close> makes; elsewhere the model stops with a fault.
\<close>

fun rayLoop :: "int list \<Rightarrow> int list \<Rightarrow> (nat \<Rightarrow> nat \<Rightarrow> int) \<Rightarrow> int list \<Rightarrow> int list \<Rightarrow> int \<Rightarrow> nat list \<Rightarrow>
    int \<times> int list list \<times> int list list \<Rightarrow> fault + int \<times> int list list \<times> int list list" where
  "rayLoop limIdxs facSubs behind origStart origEnd nsaz [] state = Inr state"
| "rayLoop limIdxs facSubs behind origStart origEnd nsaz (j # js) (currFacSub, starts, ends) =
     (let c = facSubLoop limIdxs facSubs (behind j) (int j) [0..<length facSubs] currFacSub
      in if nat nsaz > length origStart then Inl OutOfRange
         else rayLoop limIdxs facSubs behind origStart origEnd nsaz js
                (c, starts[j := fold (\<lambda>k row. row[k := origStart ! k + c]) [0..<nat nsaz] (starts ! j)],
                    ends[j := fold (\<lambda>k row. row[k := origEnd ! k - c]) [0..<nat nsaz] (ends ! j)]))"

text \<open>
  The body of the loop on elevations in \<^verbatim>\<open>HoofSuperober::_calculateBinBorders\<close>: range
  borders, start-ray borders and end-ray borders of one elevation. \<open>L\<close> is a quotient of
  doubles: with a NaN operand or a zero divisor it is NaN or infinite, and its conversion
  to \<^verbatim>\<open>int\<close> in the first pass of the loop on \<open>z\<close> is undefined. The product \<^verbatim>\<open>naz*binF\<close> in
  its divisor is a product of \<^verbatim>\<open>int\<close>, converted to \<^verbatim>\<open>double\<close> afterwards: beyond 32 bits it
  wraps around.
\<close>

definition int32 :: "int \<Rightarrow> int" where
  "int32 x = (x + 2 ^ 31) mod 2 ^ 32 - 2 ^ 31"

definition arcLimit :: "HoofSettings \<Rightarrow> int \<Rightarrow> double \<Rightarrow> double" where
  "arcLimit st naz0 rscale =
     (case rscale of
        None \<Rightarrow> None
      | Some rs \<Rightarrow>
          if 2 * Pi * real_of_int (int32 (naz0 * rangeBinFactor st)) * rs = 0 then None
          else Some (360 * 360 * maxArcSize st
                     / (2 * Pi * real_of_int (int32 (naz0 * rangeBinFactor st)) * rs)))"

definition elevationBorders :: "(nat \<Rightarrow> nat \<Rightarrow> int) \<Rightarrow> HoofSettings \<Rightarrow> int \<Rightarrow> int \<Rightarrow> int \<Rightarrow> int \<Rightarrow> double
    \<Rightarrow> fault + int list \<times> int list list \<times> int list list" where
  "elevationBorders behind st naz0 nr0 nsaz nsr rscale =
     (let binF = rangeBinFactor st;
          rayF = rayAngleFactor st;
          zmax = (rayF - 1) sdiv 2
      in case rangeBorders binF nr0 of
           Inl f \<Rightarrow> Inl f
         | Inr currRangeBorders \<Rightarrow>
             (case (if zmax < 0 then Some 0 else arcLimit st naz0 rscale) of
                None \<Rightarrow> Inl NotFinite
              | Some L \<Rightarrow>
                  let (limIdxs, facSubs) = rayLimits L zmax (int (length currRangeBorders))
                  in case countUp 0 naz0 rayF [] of
                       None \<Rightarrow> Inl Diverges
                     | Some origStart \<Rightarrow>
                         if nsr < 0 \<or> nsaz < 0 then Inl BadAlloc
                         else
                           (case rayLoop limIdxs facSubs behind origStart (map (\<lambda>j. rayF + j) origStart)
                                   nsaz [0..<nat nsr]
                                   (- 1, replicate (nat nsr) (replicate (nat nsaz) iNaN),
                                         replicate (nat nsr) (replicate (nat nsaz) iNaN)) of
                              Inl f \<Rightarrow> Inl f
                            | Inr (c, starts, ends) \<Rightarrow> Inr (currRangeBorders, starts, ends))))"

text \<open>The superober's three border tables, one entry per superobed elevation.\<close>

record Borders =
  rangeBorders_tab :: "int list list"
  startRayBorders :: "int list list list"
  endRayBorders :: "int list list list"

fun bordersLoop :: "(nat \<Rightarrow> nat \<Rightarrow> nat \<Rightarrow> int) \<Rightarrow> HoofSettings \<Rightarrow> HoofMeasurement \<Rightarrow> HoofMeasurement
    \<Rightarrow> nat list \<Rightarrow> Borders \<Rightarrow> fault + Borders" where
  "bordersLoop behind st src dst [] b = Inr b"
| "bordersLoop behind st src dst (i # is) b =
     (case elevationBorders (behind i) st (naz src ! i) (nr src ! i) (naz dst ! i) (nr dst ! i) (rscales src ! i) of
        Inl f \<Rightarrow> Inl f
      | Inr (rb, sb, eb) \<Rightarrow>
          bordersLoop behind st src dst is
            \<lparr> rangeBorders_tab = rangeBorders_tab b @ [rb],
              startRayBorders = startRayBorders b @ [sb],
              endRayBorders = endRayBorders b @ [eb] \<rparr>)"

text \<open>
  \<^verbatim>\<open>_calculateBinBorders(type)\<close> for \<open>type\<close> \<^verbatim>\<open>"DBZ"\<close> or \<^verbatim>\<open>"VRAD"\<close>; \<open>behind i j\<close> is the
  memory behind \<^verbatim>\<open>limIdxs\<close> of elevation \<open>i\<close> in pass \<open>j\<close> of its loop on the range index.
\<close>

definition calculateBinBorders :: "(nat \<Rightarrow> nat \<Rightarrow> nat \<Rightarrow> int) \<Rightarrow> HoofSettings \<Rightarrow> HoofData \<Rightarrow> string
    \<Rightarrow> fault + Borders" where
  "calculateBinBorders behind st d type =
     (let empty = \<lparr> rangeBorders_tab = [], startRayBorders = [], endRayBorders = [] \<rparr>
      in if type = ''DBZ'' then bordersLoop behind st (dbz d) (sdbz d) [0..<nat (nel (sdbz d))] empty
         else if type = ''VRAD'' then bordersLoop behind st (vrad d) (svrad d) [0..<nat (nel (svrad d))] empty
         else Inr empty)"

section \<open>Superober: aggregation of VRAD\<close>

text \<open>
  The roll of the source cube along the azimuth axis by \<open>zmax\<close>, as the two loops of
  \<^verbatim>\<open>superob\<close> write it into a fresh cube of NaN.
\<close>

definition roll :: "int \<Rightarrow> nat \<Rightarrow> nat \<Rightarrow> nat \<Rightarrow> double list list list \<Rightarrow> double list list list" where
  "roll zmax Nel Naz Nr oldmeas =
     fold (\<lambda>i. fold (\<lambda>j.
         let newj = (if int j + zmax \<ge> int Naz then int j + zmax - int Naz else int j + zmax)
         in fold (\<lambda>k m. put3 m i (nat newj) k (at3 oldmeas i j k)) [0..<Nr]) [0..<Naz]) [0..<Nel]
       (cube Nel Naz Nr dNaN)"

text \<open>
  The statistics of one coarse cell, lines 425 to 444 of the source: the loops on the source
  ray \<open>l\<close> and the source bin \<open>m\<close>. The source adds \<^verbatim>\<open>m\<close> and \<^verbatim>\<open>m*m\<close>, the loop variable,
  to the sums; the value \<^verbatim>\<open>v\<close> is only compared with \<open>1000000\<close>.
\<close>

definition vradStats :: "double list list \<Rightarrow> int \<Rightarrow> int \<Rightarrow> int \<Rightarrow> int \<Rightarrow> int \<times> real \<times> real" where
  "vradStats plane startRay endRay startBin endBin =
     fold (\<lambda>l. fold (\<lambda>m (nGood, s, s2).
           let v = plane ! nat l ! nat m
           in if dlt v (Some 1000000)
              then (nGood + 1, s + real_of_int m, s2 + real_of_int (m * m))
              else (nGood, s, s2))
         [startBin..endBin - 1]) [startRay..endRay - 1] (0, 0, 0)"

text \<open>
  Mean, standard deviation and the output rule of one coarse cell, lines 445 to 457:
  \<open>Some avg\<close> when the cell is written (\<^verbatim>\<open>meas = avg\<close>, \<^verbatim>\<open>quals = 1.0\<close>), \<open>None\<close> when it is
  left as it was allocated (\<^verbatim>\<open>meas\<close> NaN, \<^verbatim>\<open>quals\<close> 0).
\<close>

definition vradCell :: "HoofSettings \<Rightarrow> double list list \<Rightarrow> int \<Rightarrow> int \<Rightarrow> int \<Rightarrow> int \<Rightarrow> real option" where
  "vradCell st plane startRay endRay startBin endBin =
     (let (nGood, s, s2) = vradStats plane startRay endRay startBin endBin;
          (avg, std) =
            (if nGood > 0
             then let avg = s / real_of_int nGood;
                      std2 = (s2 - s * avg) / real_of_int nGood
                  in (avg, if std2 > 0 then sqrt std2 else 0)
             else (0, vradMaxStd st + 1))
      in if real_of_int nGood > vradPercentage st * real_of_int ((endRay - startRay) * (endBin - startBin))
            \<and> std < vradMaxStd st
         then Some avg else None)"

text \<open>
  The VRAD branch of \<^verbatim>\<open>HoofSuperober::superob\<close> after the borders are computed: the
  source is the dealiased cube when dealiasing is on, the raw measurements otherwise.
\<close>

definition superobVrad :: "HoofSettings \<Rightarrow> HoofData \<Rightarrow> Borders \<Rightarrow> HoofData" where
  "superobVrad st d b =
     (let zmax = (rayAngleFactor st - 1) sdiv 2;
          oldmeas = (if dealiasing st then dvrads d else meas (vrad d));
          rolled = roll zmax (nat (nel (vrad d))) (nat (nazMax (vrad d))) (nat (nrMax (vrad d))) oldmeas;
          smeas = cube (nat (nel (svrad d))) (nat (nazMax (svrad d))) (nat (nrMax (svrad d))) dNaN;
          squals = cube (nat (nel (svrad d))) (nat (nazMax (svrad d))) (nat (nrMax (svrad d))) (Some 0);
          (smeas', squals') =
            fold (\<lambda>i. fold (\<lambda>j. fold (\<lambda>k (sm, sq).
                case vradCell st (rolled ! i)
                       (startRayBorders b ! i ! j ! k) (endRayBorders b ! i ! j ! k)
                       (rangeBorders_tab b ! i ! j) (rangeBorders_tab b ! i ! (j + 1)) of
                  None \<Rightarrow> (sm, sq)
                | Some avg \<Rightarrow> (put3 sm i k j (Some avg), put3 sq i k j (Some 1)))
              [0..<nat (naz (svrad d) ! i)]) [0..<nat (nr (svrad d) ! i)]) [0..<nat (nel (svrad d))]
              (smeas, squals)
      in d\<lparr> svrad := (svrad d)\<lparr> meas := smeas', quals := squals' \<rparr> \<rparr>)"

section \<open>Quantized writer\<close>

text \<open>
  \<^verbatim>\<open>static_cast<unsigned char>\<close> of a double truncates towards zero; it is undefined when
  the truncated value does not fit 0..255 or the double is NaN.
\<close>

definition uchar_cast :: "double \<Rightarrow> fault + nat" where
  "uchar_cast x =
     (case x of
        None \<Rightarrow> Inl NotFinite
      | Some y \<Rightarrow> if - 1 < y \<and> y < 256 then Inr (nat \<lfloor>y\<rfloor>) else Inl NotFinite)"

text \<open>
  Gain and offset of one 2-D field, as \<^verbatim>\<open>HoofSuperober::write\<close> computes them for DBZ, TH
  and VRAD (and \<^verbatim>\<open>HoofDealiaser::write\<close> for the dealiased VRAD), every operation rounded.
\<close>

definition gainOffset :: "double list list \<Rightarrow> double \<times> double" where
  "gainOffset el =
     (if \<not> isallnan2 el then
        let (mn, mx) = nanminmax2 el;
            gain0 = fdiv (fsub mx mn) (Some 254);
            gain = (if eqDbl gain0 (Some 0) then Some 1 else gain0);
            offset = fdiv (fsub (fmul (Some 254) mn) mx) (Some 253)
        in (gain, offset)
      else (Some 1, Some 0))"

text \<open>
  The operand \<^verbatim>\<open>(v - offset + 0.5*gain) / gain\<close> of the conversion and the byte of one cell
  that is not NaN.
\<close>

definition scaled :: "double \<Rightarrow> double \<Rightarrow> double \<Rightarrow> double" where
  "scaled gain offset v = fdiv (fadd (fsub v offset) (fmul (Some 0.5) gain)) gain"

definition encode :: "double \<Rightarrow> double \<Rightarrow> double \<Rightarrow> fault + nat" where
  "encode gain offset v = uchar_cast (scaled gain offset v)"

definition quantizeField :: "double list list \<Rightarrow> nat \<Rightarrow> double \<times> double \<times> (fault + nat) list list" where
  "quantizeField el nodataRaw =
     (let (gain, offset) = gainOffset el
      in (gain, offset,
          map (map (\<lambda>v. if \<not> isnan v then encode gain offset v else Inr nodataRaw)) el))"

section \<open>Dealiaser\<close>

text \<open>
  A running minimum that starts at \<open>+\<infinity>\<close>: the cells of \<^verbatim>\<open>mns\<close> in \<^verbatim>\<open>dealias\<close> and the member
  \<^verbatim>\<open>_vnyMin\<close>. \<open>lessMin c mn\<close> is the test \<^verbatim>\<open>c < mn\<close> for a double \<open>c\<close> that is not NaN.
\<close>

datatype minimum = Infinity | Least real

definition lessMin :: "real \<Rightarrow> minimum \<Rightarrow> bool" where
  "lessMin c mn = (case mn of Infinity \<Rightarrow> True | Least m \<Rightarrow> c < m)"

text \<open>
  The conversion \<^verbatim>\<open>(int)x\<close> of a finite double truncates towards zero (values beyond the
  range of \<^verbatim>\<open>int\<close> are not modelled).
\<close>

definition int_cast :: "real \<Rightarrow> int" where
  "int_cast x = (if 0 \<le> x then \<lfloor>x\<rfloor> else \<lceil>x\<rceil>)"

text \<open>The private members of \<^verbatim>\<open>HoofDealiaser\<close> that \<^verbatim>\<open>calculateWindModelQtys\<close> fills.\<close>

record HoofDealiaser =
  As :: "double list list list"
  Bs :: "double list list list"
  Ds :: "double list list list"
  cosEls :: "double list"
  cosAzs :: "double list list"
  sinAzs :: "double list list"
  vnyMin :: minimum

text \<open>
  The minimum Nyquist velocity as the first loop of \<^verbatim>\<open>calculateWindModelQtys\<close> finds it:
  \<^verbatim>\<open>if(vNy < _vnyMin) _vnyMin = vNy;\<close> for every elevation, from \<open>+\<infinity>\<close>.
\<close>

definition minNyquist :: "HoofMeasurement \<Rightarrow> minimum" where
  "minNyquist m =
     fold (\<lambda>i mn. case vnys m ! i of
                     None \<Rightarrow> mn
                   | Some vNy \<Rightarrow> if lessMin vNy mn then Least vNy else mn)
       [0..<nat (nel m)] Infinity"

subsection \<open>Height sectors\<close>

text \<open>
  The quantities that \<^verbatim>\<open>determineHeightSectors\<close> prepares: the ceiling
  \<^verbatim>\<open>zmax = zdatamax < zMax ? zdatamax : zMax\<close> (a NaN \<^verbatim>\<open>zdatamax\<close> compares false), the
  sector index \<^verbatim>\<open>(int)((z-zstart)/dz)\<close> of a height and the number of sectors
  \<^verbatim>\<open>nl = (int)((zmax-zstart)/dz)+1\<close>.
\<close>

definition zCeiling :: "HoofSettings \<Rightarrow> HoofData \<Rightarrow> real" where
  "zCeiling st d =
     (case snd (nanminmax3 (zs (vrad d))) of
        None \<Rightarrow> zMax st
      | Some zdatamax \<Rightarrow> if zdatamax < zMax st then zdatamax else zMax st)"

definition sectorIndex :: "HoofSettings \<Rightarrow> HoofData \<Rightarrow> real \<Rightarrow> int" where
  "sectorIndex st d z = int_cast ((z - height d) / zSectorSize st)"

definition sectorCount :: "HoofSettings \<Rightarrow> HoofData \<Rightarrow> int" where
  "sectorCount st d = int_cast ((zCeiling st d - height d) / zSectorSize st) + 1"

text \<open>
  The body of the loop nest of \<^verbatim>\<open>determineHeightSectors\<close>. The write
  \<^verbatim>\<open>zIdxs[idx].push_back\<close> is checked: outside the vector it is a fault, which ends the run.
\<close>

definition sectorStep :: "HoofSettings \<Rightarrow> HoofDealiaser \<Rightarrow> HoofData \<Rightarrow> nat \<Rightarrow> nat \<Rightarrow> nat
    \<Rightarrow> fault + Triple list list \<Rightarrow> fault + Triple list list" where
  "sectorStep st dl d i j k s =
     (case s of
        Inl f \<Rightarrow> Inl f
      | Inr zi \<Rightarrow>
          (case at3 (zs (vrad d)) i j k of
             None \<Rightarrow> Inr zi
           | Some z \<Rightarrow>
               if \<not> (isnan (at3 (meas (vrad d)) i j k) \<or> isnan (at3 (Ds dl) i j k)) \<and> z < zCeiling st d
               then let idx = sectorIndex st d z
                    in if 0 \<le> idx \<and> idx < int (length zi)
                       then Inr (zi[nat idx := zi ! nat idx @ [(i, j, k)]])
                       else Inl OutOfRange
               else Inr zi))"

text \<open>
  \<^verbatim>\<open>HoofDealiaser::determineHeightSectors\<close>. A zero sector size makes the quotient
  infinite or NaN and its conversion to \<^verbatim>\<open>int\<close> undefined; a negative \<^verbatim>\<open>nl\<close> makes the
  vector constructors throw.
\<close>

definition determineHeightSectors :: "HoofSettings \<Rightarrow> HoofDealiaser \<Rightarrow> HoofData \<Rightarrow> fault + HoofData" where
  "determineHeightSectors st dl d =
     (let dz = zSectorSize st
      in if dz = 0 then Inl NotFinite
         else
           let nl = sectorCount st d
           in if nl < 0 then Inl BadAlloc
              else
                let starts = fold (\<lambda>n v. v[n := height d + real n * dz]) [0..<nat nl] (replicate (nat nl) 0);
                    ends = fold (\<lambda>n v. v[n := starts ! n + dz]) [0..<nat nl] (replicate (nat nl) 0)
                in case sweep (vrad d) (sectorStep st dl d) (Inr (replicate (nat nl) [])) of
                     Inl f \<Rightarrow> Inl f
                   | Inr zi \<Rightarrow> Inr (d\<lparr> zStarts := starts, zEnds := ends, zIdxs := zi \<rparr>))"

subsection \<open>Wind models\<close>

text \<open>
  \<^verbatim>\<open>HoofDealiaser::calculateWindModels\<close>. The least-squares fit is GSL's
  \<^verbatim>\<open>gsl_multifit_linear\<close>, a library outside the repository: it is the parameter \<open>fit\<close>,
  from the rows \<open>(-A, B, D)\<close> of a sector to the pair \<open>(u, v)\<close>.
\<close>

definition modelStep :: "HoofSettings \<Rightarrow> HoofDealiaser \<Rightarrow> double \<Rightarrow> double \<Rightarrow> Triple
    \<Rightarrow> double list list list \<Rightarrow> double list list list" where
  "modelStep st dl u v = (\<lambda>(iel, iaz, ir) w.
     let vm = dmul (cosEls dl ! iel)
                (dadd (dmul u (sinAzs dl ! iel ! iaz)) (dmul v (cosAzs dl ! iel ! iaz)))
     in if dlt (dabs vm) (Some (maxWind st)) then put3 w iel iaz ir vm else w)"

definition calculateWindModels :: "((double \<times> double \<times> double) list \<Rightarrow> double \<times> double)
    \<Rightarrow> HoofSettings \<Rightarrow> HoofDealiaser \<Rightarrow> HoofData \<Rightarrow> HoofData" where
  "calculateWindModels fit st dl d =
     d\<lparr> wModels :=
          fold (\<lambda>idxs w.
                 if int (length idxs) \<ge> minGoodPoints st
                 then let (u, v) = fit (map (\<lambda>(i, j, k). (map_option uminus (at3 (As dl) i j k),
                                                           at3 (Bs dl) i j k, at3 (Ds dl) i j k)) idxs)
                      in fold (modelStep st dl u v) idxs w
                 else w)
            (zIdxs d)
            (cube (nat (nel (vrad d))) (nat (nazMax (vrad d))) (nat (nrMax (vrad d))) dNaN) \<rparr>"

subsection \<open>Nyquist unfolding\<close>

text \<open>
  \<^verbatim>\<open>double nymax = (int)(HoofSettings::maxWind/_vnyMin);\<close> With \<^verbatim>\<open>_vnyMin\<close> still \<open>+\<infinity>\<close>
  the quotient is \<open>0\<close>; with \<^verbatim>\<open>_vnyMin = 0\<close> it is infinite or NaN and the conversion
  undefined.
\<close>

definition nyquistMax :: "HoofSettings \<Rightarrow> HoofDealiaser \<Rightarrow> fault + int" where
  "nyquistMax st dl =
     (case vnyMin dl of
        Infinity \<Rightarrow> Inr 0
      | Least v \<Rightarrow> if v = 0 then Inl NotFinite else Inr (int_cast (maxWind st / v)))"

text \<open>
  The misfit \<^verbatim>\<open>abs(m + 2.0*vny*(double)n - wm)\<close> of the candidate \<open>n\<close> as the program computes
  it: two products, a sum and a difference, each rounded. The conversion of \<open>n\<close> and the
  absolute value are exact.
\<close>

definition misfit :: "double \<Rightarrow> double \<Rightarrow> int \<Rightarrow> double \<Rightarrow> double" where
  "misfit m vny n wm = dabs (fsub (fadd m (fmul (fmul (Some 2) vny) (dbl n))) wm)"

text \<open>
  The body of the search for the Nyquist multiplier, for the candidate \<open>n\<close>. A misfit that
  is NaN or infinite fails the test \<^verbatim>\<open>currMn < mns[i][j][k]\<close>.
\<close>

definition nyquistStep :: "HoofData \<Rightarrow> int \<Rightarrow> nat \<Rightarrow> nat \<Rightarrow> nat
    \<Rightarrow> minimum list list list \<times> int list list list \<Rightarrow> minimum list list list \<times> int list list list" where
  "nyquistStep d n i j k = (\<lambda>(mns, ns).
     let vny = vnys (vrad d) ! i;
         wm = at3 (wModels d) i j k;
         m = at3 (meas (vrad d)) i j k
     in if \<not> (isnan wm \<or> isnan m)
        then (case misfit m vny n wm of
                None \<Rightarrow> (mns, ns)
              | Some currMn \<Rightarrow>
                  if lessMin currMn (at3 mns i j k)
                  then (put3 mns i j k (Least currMn), put3 ns i j k n)
                  else (mns, ns))
        else (mns, ns))"

text \<open>The first loop nest of \<^verbatim>\<open>dealias\<close>: the local cubes \<^verbatim>\<open>mns\<close> and \<^verbatim>\<open>ns\<close>.\<close>

definition nyquistMultipliers :: "int \<Rightarrow> HoofData \<Rightarrow> minimum list list list \<times> int list list list" where
  "nyquistMultipliers nymax d =
     fold (\<lambda>n. sweep (vrad d) (nyquistStep d n)) [- nymax..nymax]
       (cube (nat (nel (vrad d))) (nat (nazMax (vrad d))) (nat (nrMax (vrad d))) Infinity,
        cube (nat (nel (vrad d))) (nat (nazMax (vrad d))) (nat (nrMax (vrad d))) iNaN)"

text \<open>
  The body of the second loop nest. \<^verbatim>\<open>isnan(n)\<close> is applied to the \<^verbatim>\<open>int\<close> multiplier.
\<close>

definition dealiasStep :: "HoofData \<Rightarrow> HoofDealiaser \<Rightarrow> int list list list \<Rightarrow> nat \<Rightarrow> nat \<Rightarrow> nat
    \<Rightarrow> double list list list \<Rightarrow> double list list list" where
  "dealiasStep d dl ns i j k dv =
     (let vny = vnys (vrad d) ! i;
          m = at3 (meas (vrad d)) i j k;
          n = at3 ns i j k
      in if \<not> (isnan m \<or> isnan_int n \<or> isnan (at3 (Ds dl) i j k))
         then put3 dv i j k (dadd m (dmul (dmul (Some 2) (dbl n)) vny))
         else dv)"

definition dealias :: "HoofSettings \<Rightarrow> HoofDealiaser \<Rightarrow> HoofData \<Rightarrow> fault + HoofData" where
  "dealias st dl d =
     (case nyquistMax st dl of
        Inl f \<Rightarrow> Inl f
      | Inr nymax \<Rightarrow>
          let (mns, ns) = nyquistMultipliers nymax d
          in Inr (d\<lparr> dvrads := sweep (vrad d) (dealiasStep d dl ns)
                     (cube (nat (nel (vrad d))) (nat (nazMax (vrad d))) (nat (nrMax (vrad d))) dNaN) \<rparr>))"

text \<open>A volume of one elevation with a single bin per moment, for concrete checks.\<close>

definition oneBin :: "double \<Rightarrow> HoofMeasurement" where
  "oneBin v = emptyMeasurement\<lparr> datasets := [''dataset1''], nel := 1, nazMax := 1, nrMax := 1,
     naz := [1], nr := [1], meas := [[[v]]] \<rparr>"

definition oneBinVolume :: "double \<Rightarrow> double \<Rightarrow> HoofData" where
  "oneBinVolume a b = \<lparr> height = 0, dbz = oneBin a, vrad = oneBin b, zStarts = [], zEnds = [],
     zIdxs = [], wModels = [], dvrads = [], sdbz = emptyMeasurement, svrad = emptyMeasurement \<rparr>"

text \<open>
  The shape of a moment as the homogenizer stores it: one entry per elevation in every
  per-elevation vector, and counts of rays and range gates that are not negative.
\<close>

definition dims_ok :: "HoofMeasurement \<Rightarrow> bool" where
  "dims_ok m = (0 \<le> nel m \<and> length (naz m) = nat (nel m) \<and> length (nr m) = nat (nel m)
     \<and> length (rscales m) = nat (nel m) \<and> length (rstarts m) = nat (nel m)
     \<and> list_all (\<lambda>x. 0 \<le> x) (naz m) \<and> list_all (\<lambda>x. 0 \<le> x) (nr m))"

text \<open>Scenario S4: one elevation of 16 rays and 20 range gates, factors 4 and 3.\<close>

definition s4Settings :: HoofSettings where
  "s4Settings = \<lparr> dealiasing = False, zSectorSize = 100, zMax = 10000, minGoodPoints = 1,
     maxWind = 40, superobing = True, rangeBinFactor = 4, rayAngleFactor = 3, maxArcSize = 20,
     minQuality = 0.5, dbzClearsky = 0, dbzPercentage = 0.5, vradPercentage = 0.5,
     vradMaxStd = 1 \<rparr>"

definition s4Moment :: HoofMeasurement where
  "s4Moment = emptyMeasurement\<lparr> datasets := [''dataset1''], nel := 1, nazMax := 16, nrMax := 20,
     elangles := [Some 0], naz := [16], nr := [20], rscales := [Some 1000], rstarts := [Some 0] \<rparr>"

definition s4Volume :: HoofData where
  "s4Volume = \<lparr> height = 0, dbz = s4Moment, vrad = s4Moment, zStarts = [], zEnds = [],
     zIdxs = [], wModels = [], dvrads = [], sdbz = emptyMeasurement, svrad = emptyMeasurement \<rparr>"

text \<open>Scenario S4 after grid preparation, and the border tables computed for it.\<close>

definition s4Superobed :: HoofData where
  "s4Superobed = s4Volume\<lparr> sdbz := emptyMeasurement\<lparr> nel := 1, naz := [5], nr := [5] \<rparr>,
                            svrad := emptyMeasurement\<lparr> nel := 1, naz := [5], nr := [5] \<rparr> \<rparr>"

definition s4Borders :: Borders where
  "s4Borders = \<lparr> rangeBorders_tab = [[0, 4, 8, 12, 16, 20]],
     startRayBorders = [[[0, 3, 6, 9, 12], [0, 3, 6, 9, 12], [1, 4, 7, 10, 13],
                         [1, 4, 7, 10, 13], [1, 4, 7, 10, 13]]],
     endRayBorders = [[[3, 6, 9, 12, 15], [3, 6, 9, 12, 15], [2, 5, 8, 11, 14],
                       [2, 5, 8, 11, 14], [2, 5, 8, 11, 14]]] \<rparr>"

text \<open>
  A superobed grid \<open>dst\<close> as \<^verbatim>\<open>prepareMetadata\<close> makes it from the moment \<open>src\<close>: the counts of
  the source are not negative, the counts of the grid are their quotients by the factors,
  the range scale is a number other than zero and the \<^verbatim>\<open>int\<close> product \<^verbatim>\<open>naz*binF\<close> is not zero.
\<close>

definition superobGrid :: "HoofSettings \<Rightarrow> HoofMeasurement \<Rightarrow> HoofMeasurement \<Rightarrow> bool" where
  "superobGrid st src dst =
     (\<forall>e < nat (nel dst).
        0 \<le> naz src ! e \<and> 0 \<le> nr src ! e
      \<and> naz dst ! e = naz src ! e div rayAngleFactor st
      \<and> nr dst ! e = nr src ! e div rangeBinFactor st
      \<and> (\<exists>rs. rscales src ! e = Some rs \<and> rs \<noteq> 0)
      \<and> int32 (naz src ! e * rangeBinFactor st) \<noteq> 0)"

text \<open>A memory that holds zeros behind \<^verbatim>\<open>limIdxs\<close>, for concrete runs.\<close>

definition zeroed :: "nat \<Rightarrow> nat \<Rightarrow> nat \<Rightarrow> int" where
  "zeroed i j k = 0"

text \<open>
  A grid of one elevation with 21 rays and 20 range gates, factors 4 and 7, and an arc
  limit that binds in the last coarse range bin only: \<^verbatim>\<open>limIdxs\<close> ends up with three entries
  for the four entries of \<^verbatim>\<open>facSubs\<close>, and the search reads behind it.
\<close>

definition tierSettings :: HoofSettings where
  "tierSettings = \<lparr> dealiasing = False, zSectorSize = 100, zMax = 10000, minGoodPoints = 1,
     maxWind = 40, superobing = True, rangeBinFactor = 4, rayAngleFactor = 7, maxArcSize = 125,
     minQuality = 0.5, dbzClearsky = 0, dbzPercentage = 0.5, vradPercentage = 0.5,
     vradMaxStd = 1 \<rparr>"

definition tierMoment :: HoofMeasurement where
  "tierMoment = emptyMeasurement\<lparr> datasets := [''dataset1''], nel := 1, nazMax := 21, nrMax := 20,
     elangles := [Some 0], naz := [21], nr := [20], rscales := [Some 1000], rstarts := [Some 0] \<rparr>"

definition tierVolume :: HoofData where
  "tierVolume = \<lparr> height = 0, dbz = tierMoment, vrad = tierMoment, zStarts = [], zEnds = [],
     zIdxs = [], wModels = [], dvrads = [], sdbz = emptyMeasurement, svrad = emptyMeasurement \<rparr>"

definition tierSuperobed :: HoofData where
  "tierSuperobed = tierVolume\<lparr> sdbz := emptyMeasurement\<lparr> nel := 1, naz := [3], nr := [5] \<rparr>,
                                svrad := emptyMeasurement\<lparr> nel := 1, naz := [3], nr := [5] \<rparr> \<rparr>"

definition tierBorders :: Borders where
  "tierBorders = \<lparr> rangeBorders_tab = [[0, 4, 8, 12, 16, 20]],
     startRayBorders = [[[0, 7, 14], [0, 7, 14], [0, 7, 14], [0, 7, 14], [1, 8, 15]]],
     endRayBorders = [[[7, 14, 21], [7, 14, 21], [7, 14, 21], [7, 14, 21], [6, 13, 20]]] \<rparr>"

text \<open>The number of source rays folded into the superobed cell \<open>(j, k)\<close> of elevation \<open>e\<close>.\<close>

definition rayCount :: "fault + Borders \<Rightarrow> nat \<Rightarrow> nat \<Rightarrow> nat \<Rightarrow> int option" where
  "rayCount r e j k =
     (case r of Inl f \<Rightarrow> None
      | Inr b \<Rightarrow> Some (endRayBorders b ! e ! j ! k - startRayBorders b ! e ! j ! k))"

text \<open>
  Scenario S6: one VRAD elevation of 3 rays and 3 gates, both factors 3, so that the volume
  is one coarse cell of the 9 bins \<open>1, 1, 1, 1, 1, 1, 1, 1, 10\<close>; \<open>s6Svrad\<close> is the superobed
  moment that grid preparation gives, \<open>s6Borders\<close> the border tables.
\<close>

definition s6Settings :: HoofSettings where
  "s6Settings = \<lparr> dealiasing = False, zSectorSize = 100, zMax = 10000, minGoodPoints = 1,
     maxWind = 40, superobing = True, rangeBinFactor = 3, rayAngleFactor = 3, maxArcSize = 20000,
     minQuality = 0.5, dbzClearsky = 0, dbzPercentage = 0.5, vradPercentage = 0.5,
     vradMaxStd = 1 \<rparr>"

definition s6Vrad :: HoofMeasurement where
  "s6Vrad = emptyMeasurement\<lparr> datasets := [''dataset1''], nel := 1, nazMax := 3, nrMax := 3,
     elangles := [Some 0], naz := [3], nr := [3], rscales := [Some 1000], rstarts := [Some 0],
     meas := [[[Some 1, Some 1, Some 1], [Some 1, Some 1, Some 1], [Some 1, Some 1, Some 10]]] \<rparr>"

definition s6Volume :: HoofData where
  "s6Volume = \<lparr> height = 0, dbz = emptyMeasurement, vrad = s6Vrad, zStarts = [], zEnds = [],
     zIdxs = [], wModels = [], dvrads = [], sdbz = emptyMeasurement, svrad = emptyMeasurement \<rparr>"

definition s6Svrad :: HoofMeasurement where
  "s6Svrad = emptyMeasurement\<lparr> nel := 1, nazMax := 1, nrMax := 1, elangles := [Some 0],
     naz := [1], azimuths := [[Some 0]], nr := [1], ranges := [[Some 0]],
     rscales := [Some 3000], rstarts := [Some 0] \<rparr>"

definition s6Borders :: Borders where
  "s6Borders = \<lparr> rangeBorders_tab = [[0, 3]], startRayBorders = [[[0]]], endRayBorders = [[[3]]] \<rparr>"

text \<open>A small field with a missing cell, for concrete checks of the writer.\<close>

definition sampleField :: "double list list" where
  "sampleField = [[Some 0, dNaN], [Some 252, Some 64262]]"

text \<open>
  A field of two doubles that are 198 units in the last place apart: the doubles nearest
  to \<open>166523.44779310244\<close> and \<open>166523.4477931082\<close>.
\<close>

definition narrowMin :: real where
  "narrowMin = 5721702098308307 / 2 ^ 35"

definition narrowMax :: real where
  "narrowMax = 5721702098308505 / 2 ^ 35"

definition narrowField :: "double list list" where
  "narrowField = [[Some narrowMin, Some narrowMax]]"

text \<open>
  A single bin whose measurement lies midway between two Nyquist shifts of the model:
  \<open>meas = 0\<close>, \<open>vny = 10\<close>, model \<open>-10\<close>, \<^verbatim>\<open>maxWind = 15\<close>.
\<close>

definition tieSettings :: HoofSettings where
  "tieSettings = \<lparr> dealiasing = True, zSectorSize = 100, zMax = 10000, minGoodPoints = 1,
     maxWind = 15, superobing = False, rangeBinFactor = 1, rayAngleFactor = 1, maxArcSize = 1000,
     minQuality = 0.5, dbzClearsky = 0, dbzPercentage = 0.5, vradPercentage = 0.5,
     vradMaxStd = 1 \<rparr>"

definition tieVolume :: HoofData where
  "tieVolume = \<lparr> height = 0, dbz = emptyMeasurement,
     vrad = emptyMeasurement\<lparr> datasets := [''dataset1''], nel := 1, nazMax := 1, nrMax := 1,
              elangles := [Some 0], naz := [1], azimuths := [[Some 0]], nr := [1],
              vnys := [Some 10], meas := [[[Some 0]]], zs := [[[Some 1]]] \<rparr>,
     zStarts = [0], zEnds = [100], zIdxs = [[(0, 0, 0)]], wModels = [[[Some (- 10)]]], dvrads = [],
     sdbz = emptyMeasurement, svrad = emptyMeasurement \<rparr>"

definition tieDealiaser :: HoofDealiaser where
  "tieDealiaser = \<lparr> As = [[[Some 0]]], Bs = [[[Some 0]]], Ds = [[[Some 0]]], cosEls = [Some 1],
     cosAzs = [[Some 1]], sinAzs = [[Some 0]], vnyMin = Least 10 \<rparr>"

text \<open>
  Scenario S3: one elevation of 4 rays and 2 gates, \<open>vny = 10\<close>, every measurement \<open>1\<close>,
  site height \<open>0\<close>, \<^verbatim>\<open>minGoodPoints = 100\<close>. The heights are those of gates at 500 m and
  1000 m, and \<open>D\<close> is \<open>0\<close> in every bin since the measurements do not vary with the
  azimuth; the other members of the dealiaser are left open. \<open>s3Sectors\<close> and
  \<open>s3Modelled\<close> are the volume after the height sectors and after the wind models.
\<close>

definition s3Settings :: HoofSettings where
  "s3Settings = \<lparr> dealiasing = True, zSectorSize = 100, zMax = 10000, minGoodPoints = 100,
     maxWind = 40, superobing = False, rangeBinFactor = 1, rayAngleFactor = 1, maxArcSize = 1000,
     minQuality = 0.5, dbzClearsky = 0, dbzPercentage = 0.5, vradPercentage = 0.5,
     vradMaxStd = 1 \<rparr>"

definition s3Volume :: HoofData where
  "s3Volume = \<lparr> height = 0, dbz = emptyMeasurement,
     vrad = emptyMeasurement\<lparr> datasets := [''dataset1''], nel := 1, nazMax := 4, nrMax := 2,
              elangles := [Some 0], naz := [4], nr := [2], rscales := [Some 500], rstarts := [Some 500],
              vnys := [Some 10],
              meas := replicate 1 (replicate 4 [Some 1, Some 1]),
              zs := replicate 1 (replicate 4 [Some (3 / 200), Some (3 / 50)]) \<rparr>,
     zStarts = [], zEnds = [], zIdxs = [], wModels = [], dvrads = [],
     sdbz = emptyMeasurement, svrad = emptyMeasurement \<rparr>"

definition s3Dealiaser :: "HoofDealiaser \<Rightarrow> HoofDealiaser" where
  "s3Dealiaser dl = dl\<lparr> Ds := replicate 1 (replicate 4 [Some 0, Some 0]), vnyMin := Least 10 \<rparr>"

definition s3Sectors :: HoofData where
  "s3Sectors = s3Volume\<lparr> zStarts := [0], zEnds := [100],
                          zIdxs := [[(0, 0, 0), (0, 1, 0), (0, 2, 0), (0, 3, 0)]] \<rparr>"

definition s3Modelled :: HoofData where
  "s3Modelled = s3Sectors\<lparr> wModels := replicate 1 (replicate 4 [dNaN, dNaN]) \<rparr>"

section \<open>Notions used in the statements and proofs\<close>

text \<open>A cell index inside a cube.\<close>

definition inb :: "'a list list list \<Rightarrow> nat \<Rightarrow> nat \<Rightarrow> nat \<Rightarrow> bool" where
  "inb c i j k = (i < length c \<and> j < length (c ! i) \<and> k < length (c ! i ! j))"

text \<open>A bin of a moment: an index triple that the loop nests visit.\<close>

definition isBin :: "HoofMeasurement \<Rightarrow> nat \<Rightarrow> nat \<Rightarrow> nat \<Rightarrow> bool" where
  "isBin m i j k = (i < nat (nel m) \<and> j < nat (naz m ! i) \<and> k < nat (nr m ! i))"

text \<open>
  The cubes of a moment are allocated with the maxima \<^verbatim>\<open>nazMax\<close> and \<^verbatim>\<open>nrMax\<close>: every
  elevation has at most that many rays and gates.
\<close>

definition cube_ok :: "HoofMeasurement \<Rightarrow> bool" where
  "cube_ok m = (\<forall>i < nat (nel m). naz m ! i \<le> nazMax m \<and> nr m ! i \<le> nrMax m)"

text \<open>The cells of two cubes at one index.\<close>

definition cellPair :: "'a list list list \<times> 'b list list list \<Rightarrow> nat \<times> nat \<times> nat \<Rightarrow> 'a \<times> 'b" where
  "cellPair s t = (case t of (a, b, c) \<Rightarrow> (at3 (fst s) a b c, at3 (snd s) a b c))"

text \<open>
  What one pass of the multiplier search does to the pair (\<^verbatim>\<open>mns\<close>, \<^verbatim>\<open>ns\<close>) of the bin
  \<open>(i, j, k)\<close>: \<open>nyquistStep\<close> seen from that bin.
\<close>

definition pick :: "HoofData \<Rightarrow> nat \<times> nat \<times> nat \<Rightarrow> int \<Rightarrow> minimum \<times> int \<Rightarrow> minimum \<times> int" where
  "pick d t n = (\<lambda>(mn, k0).
     case t of (i, j, k) \<Rightarrow>
       if \<not> (isnan (at3 (wModels d) i j k) \<or> isnan (at3 (meas (vrad d)) i j k))
       then (case misfit (at3 (meas (vrad d)) i j k) (vnys (vrad d) ! i) n (at3 (wModels d) i j k) of
               None \<Rightarrow> (mn, k0)
             | Some currMn \<Rightarrow> if lessMin currMn mn then (Least currMn, n) else (mn, k0))
       else (mn, k0))"

section \<open>Theorems\<close>

subsection \<open>Rounding to binary64\<close>

declare ulpFrom.simps [simp del]

lemma ulpFrom_props:
  "s \<le> 971 \<Longrightarrow>
     s \<le> ulpFrom a s \<and> ulpFrom a s \<le> 971
   \<and> (ulpFrom a s < 971 \<longrightarrow> a < 2 powi (ulpFrom a s + 53))
   \<and> (\<forall>e. s \<le> e \<and> e < ulpFrom a s \<longrightarrow> 2 powi (e + 53) \<le> a)"
proof (induction a s rule: ulpFrom.induct)
  case (1 a e)
  show ?case
  proof (cases "e < 971 \<and> 2 powi (e + 53) \<le> a")
    case True
    then have eq: "ulpFrom a e = ulpFrom a (e + 1)" by (subst ulpFrom.simps) simp
    from True have "e + 1 \<le> 971" by simp
    from 1(1)[OF True this] have ih:
      "e + 1 \<le> ulpFrom a (e + 1)" "ulpFrom a (e + 1) \<le> 971"
      "ulpFrom a (e + 1) < 971 \<longrightarrow> a < 2 powi (ulpFrom a (e + 1) + 53)"
      "\<forall>e'. e + 1 \<le> e' \<and> e' < ulpFrom a (e + 1) \<longrightarrow> 2 powi (e' + 53) \<le> a"
      by simp_all
    have "2 powi (e' + 53) \<le> a" if "e \<le> e'" "e' < ulpFrom a (e + 1)" for e'
    proof (cases "e' = e")
      case True
      then show ?thesis using \<open>e < 971 \<and> 2 powi (e + 53) \<le> a\<close> by simp
    next
      case False
      then show ?thesis using that ih(4) by simp
    qed
    then show ?thesis unfolding eq using ih by auto
  next
    case False
    then have eq: "ulpFrom a e = e" by (subst ulpFrom.simps) auto
    show ?thesis unfolding eq using False 1(2) by auto
  qed
qed

lemma ulpExp_range: "- 1074 \<le> ulpExp x" "ulpExp x \<le> 971"
  using ulpFrom_props[of "- 1074" "\<bar>x\<bar>"] by (simp_all add: ulpExp_def)

lemma ulpExp_upper: "ulpExp x < 971 \<Longrightarrow> \<bar>x\<bar> < 2 powi (ulpExp x + 53)"
  using ulpFrom_props[of "- 1074" "\<bar>x\<bar>"] by (simp add: ulpExp_def)

lemma ulpExp_lower:
  assumes "- 1074 < ulpExp x"
  shows "2 powi (ulpExp x + 52) \<le> \<bar>x\<bar>"
proof -
  have "\<forall>e. - 1074 \<le> e \<and> e < ulpExp x \<longrightarrow> 2 powi (e + 53) \<le> \<bar>x\<bar>"
    using ulpFrom_props[of "- 1074" "\<bar>x\<bar>"] by (simp add: ulpExp_def)
  then have "- 1074 \<le> ulpExp x - 1 \<and> ulpExp x - 1 < ulpExp x
      \<longrightarrow> 2 powi (ulpExp x - 1 + 53) \<le> \<bar>x\<bar>" by (rule spec)
  then have "2 powi (ulpExp x - 1 + 53) \<le> \<bar>x\<bar>" using assms by linarith
  moreover have "ulpExp x - 1 + 53 = ulpExp x + 52" by simp
  ultimately show ?thesis by (simp only:)
qed

lemma ulpExp_eqI:
  assumes "- 1074 \<le> e" and "e \<le> 971"
    and "- 1074 < e \<longrightarrow> 2 powi (e + 52) \<le> \<bar>x\<bar>"
    and "e < 971 \<longrightarrow> \<bar>x\<bar> < 2 powi (e + 53)"
  shows "ulpExp x = e"
proof (rule ccontr)
  assume ne: "ulpExp x \<noteq> e"
  note r = ulpExp_range[of x]
  show False
  proof (cases "ulpExp x < e")
    case True
    then have "\<bar>x\<bar> < 2 powi (ulpExp x + 53)" using ulpExp_upper assms(2) by simp
    also have "\<dots> \<le> 2 powi (e + 52)" using True by (intro power_int_increasing) simp_all
    also have "\<dots> \<le> \<bar>x\<bar>" using assms(3) True r by simp
    finally show False by simp
  next
    case False
    then have gt: "e < ulpExp x" using ne by simp
    then have "2 powi (ulpExp x + 52) \<le> \<bar>x\<bar>" using ulpExp_lower assms(1) by simp
    moreover have "2 powi (e + 53) \<le> (2::real) powi (ulpExp x + 52)"
      using gt by (intro power_int_increasing) simp_all
    moreover have "\<bar>x\<bar> < 2 powi (e + 53)" using assms(4) gt r by simp
    ultimately show False by simp
  qed
qed

lemma roundEven_near: "\<bar>real_of_int (roundEven y) - y\<bar> \<le> 1 / 2"
  unfolding roundEven_def Let_def by (auto; linarith)

lemma roundEven_eqI:
  assumes "\<bar>y - real_of_int m\<bar> < 1 / 2"
  shows "roundEven y = m"
proof (cases "real_of_int m \<le> y")
  case True
  then have "\<lfloor>y\<rfloor> = m" using assms by linarith
  then show ?thesis using assms True by (simp add: roundEven_def Let_def)
next
  case False
  then have f: "\<lfloor>y\<rfloor> = m - 1" using assms by linarith
  have "1 / 2 < y - real_of_int (m - 1)" using assms False by simp
  then show ?thesis by (simp add: roundEven_def Let_def f)
qed

lemma roundEven_int [simp]: "roundEven (real_of_int m) = m"
  by (rule roundEven_eqI) simp

lemma roundEven_nonneg: "0 \<le> y \<Longrightarrow> 0 \<le> roundEven y"
  unfolding roundEven_def Let_def by (auto; linarith)

lemma fl_eqI:
  assumes "- 1074 \<le> e" and "e \<le> 971"
    and "- 1074 < e \<longrightarrow> 2 powi (e + 52) \<le> \<bar>x\<bar>"
    and "e < 971 \<longrightarrow> \<bar>x\<bar> < 2 powi (e + 53)"
    and "\<bar>x / 2 powi e - real_of_int m\<bar> < 1 / 2"
    and "\<bar>real_of_int m * 2 powi e\<bar> < 2 ^ 1024"
  shows "fl x = Some (real_of_int m * 2 powi e)"
proof -
  have e: "ulpExp x = e" by (rule ulpExp_eqI[OF assms(1-4)])
  have "roundEven (x / 2 powi e) = m" by (rule roundEven_eqI[OF assms(5)])
  then show ?thesis using assms(6) by (simp add: fl_def e Let_def)
qed

lemma fl_raw_error:
  "\<bar>real_of_int (roundEven (x / 2 powi ulpExp x)) * 2 powi ulpExp x - x\<bar> \<le> \<bar>x\<bar> / 2 ^ 53 + 1 / 2 ^ 1075"
proof -
  define e where "e = ulpExp x"
  define p where "p = (2::real) powi e"
  define y where "y = real_of_int (roundEven (x / p)) * p"
  have p0: "0 < p" by (simp add: p_def)
  have "\<bar>y - x\<bar> = \<bar>real_of_int (roundEven (x / p)) - x / p\<bar> * p"
  proof -
    have "y - x = (real_of_int (roundEven (x / p)) - x / p) * p"
      using p0 by (simp add: y_def field_simps)
    then show ?thesis using p0 by (simp add: abs_mult)
  qed
  also have "\<dots> \<le> (1 / 2) * p"
    using roundEven_near[of "x / p"] p0 by (intro mult_right_mono) simp_all
  finally have err: "\<bar>y - x\<bar> \<le> p / 2" by simp
  have "\<bar>y - x\<bar> \<le> \<bar>x\<bar> / 2 ^ 53 + 1 / 2 ^ 1075"
  proof (cases "- 1074 < e")
    case True
    then have "2 powi (e + 52) \<le> \<bar>x\<bar>" using ulpExp_lower[of x] by (simp add: e_def)
    moreover have "(2::real) powi (e + 52) = p * 2 ^ 52"
      by (simp add: p_def power_int_add)
    ultimately have "p / 2 \<le> \<bar>x\<bar> / 2 ^ 53" by (simp add: field_simps)
    then show ?thesis using err by (smt (verit) divide_nonneg_nonneg zero_le_power)
  next
    case False
    then have "e = - 1074" using ulpExp_range(1)[of x] by (simp add: e_def)
    then have "p / 2 = 1 / 2 ^ 1075" by (simp add: p_def power_int_minus_divide)
    then show ?thesis using err by (smt (verit) abs_ge_zero divide_nonneg_nonneg zero_le_power)
  qed
  then show ?thesis by (simp add: y_def p_def e_def)
qed

lemma fl_error:
  assumes "fl x = Some y"
  shows "\<bar>y - x\<bar> \<le> \<bar>x\<bar> / 2 ^ 53 + 1 / 2 ^ 1075"
proof -
  have "y = real_of_int (roundEven (x / 2 powi ulpExp x)) * 2 powi ulpExp x"
    using assms by (simp add: fl_def Let_def split: if_splits)
  then show ?thesis using fl_raw_error[of x] by simp
qed

lemma fl_error_eta:
  assumes "fl x = Some y" and "eta = 1 / 2 ^ 1075"
  shows "\<bar>y - x\<bar> \<le> \<bar>x\<bar> / 2 ^ 53 + eta"
  using fl_error[OF assms(1)] assms(2) by simp

lemma fl_bounds:
  assumes "fl x = Some y" and "\<bar>x\<bar> \<le> B" and "eta = 1 / 2 ^ 1075"
  shows "x - (B / 2 ^ 53 + eta) \<le> y" and "y \<le> x + (B / 2 ^ 53 + eta)"
proof -
  have "\<bar>y - x\<bar> \<le> \<bar>x\<bar> / 2 ^ 53 + eta" by (rule fl_error_eta[OF assms(1,3)])
  moreover have "\<bar>x\<bar> / 2 ^ 53 \<le> B / 2 ^ 53" using assms(2) by (simp add: divide_right_mono)
  ultimately show "x - (B / 2 ^ 53 + eta) \<le> y" and "y \<le> x + (B / 2 ^ 53 + eta)" by linarith+
qed

lemma fl_total:
  assumes "\<bar>x\<bar> \<le> 2 ^ 1023"
  shows "\<exists>y. fl x = Some y"
proof -
  define y where "y = real_of_int (roundEven (x / 2 powi ulpExp x)) * 2 powi ulpExp x"
  have "\<bar>y - x\<bar> \<le> \<bar>x\<bar> / 2 ^ 53 + 1 / 2 ^ 1075" unfolding y_def by (rule fl_raw_error)
  then have "\<bar>y\<bar> \<le> \<bar>x\<bar> + \<bar>x\<bar> / 2 ^ 53 + 1 / 2 ^ 1075" by linarith
  moreover have "\<bar>x\<bar> / 2 ^ 53 \<le> 2 ^ 1023 / 2 ^ 53" using assms by (simp add: divide_right_mono)
  moreover have "(2::real) ^ 1023 + 2 ^ 1023 / 2 ^ 53 + 1 / 2 ^ 1075 < 2 ^ 1024" by simp
  ultimately have "\<bar>y\<bar> < 2 ^ 1024" using assms by linarith
  then show ?thesis by (simp add: fl_def Let_def y_def)
qed

lemma fl_exists:
  assumes "\<bar>x\<bar> \<le> B" and "B \<le> 2 ^ 1023"
  shows "\<exists>y. fl x = Some y"
  using assms by (intro fl_total) simp

lemma fl_nonneg:
  assumes "fl x = Some y" and "0 \<le> x"
  shows "0 \<le> y"
proof -
  have "0 \<le> x / 2 powi ulpExp x" using assms(2) by simp
  then have "0 \<le> roundEven (x / 2 powi ulpExp x)" by (rule roundEven_nonneg)
  then show ?thesis using assms(1) by (auto simp add: fl_def Let_def split: if_splits)
qed

lemma fl_exact:
  assumes "\<bar>n\<bar> < 2 ^ 53" and "k \<le> 1074"
  shows "fl (real_of_int n / 2 ^ k) = Some (real_of_int n / 2 ^ k)"
proof -
  define x where "x = real_of_int n / 2 ^ k"
  define e where "e = ulpExp x"
  have r: "- 1074 \<le> e" "e \<le> 971" using ulpExp_range[of x] by (simp_all add: e_def)
  have ax: "\<bar>x\<bar> < 2 ^ 53 / 2 ^ k"
  proof -
    have "\<bar>real_of_int n\<bar> < 2 ^ 53" using assms(1) by (metis of_int_abs of_int_less_numeral_power_cancel_iff)
    then show ?thesis by (simp add: x_def divide_strict_right_mono)
  qed
  have ek: "e \<le> - int k"
  proof (rule ccontr)
    assume "\<not> e \<le> - int k"
    then have gt: "- int k < e" by simp
    then have "- 1074 < e" using assms(2) by simp
    then have "2 powi (e + 52) \<le> \<bar>x\<bar>" using ulpExp_lower[of x] by (simp add: e_def)
    moreover have "(2::real) powi (- int k + 53) \<le> 2 powi (e + 52)"
      using gt by (intro power_int_increasing) simp_all
    moreover have "(2::real) powi (- int k + 53) = 2 ^ 53 / 2 ^ k"
    proof -
      have "(2::real) powi (53 - int k) = 2 powi 53 / 2 powi int k" by (rule power_int_diff) simp
      then show ?thesis by (simp add: power_int_of_nat)
    qed
    ultimately show False using ax by simp
  qed
  define t where "t = nat (- e - int k)"
  have "x / 2 powi e = real_of_int (n * 2 ^ t)"
  proof -
    have "(2::real) powi (- e - int k) = 2 ^ t" using ek by (simp add: t_def power_int_def)
    moreover have "(2::real) powi (- e - int k) = 1 / (2 powi e * 2 ^ k)"
      by (simp add: power_int_diff power_int_minus_divide field_simps)
    ultimately show ?thesis by (simp add: x_def field_simps)
  qed
  then have "roundEven (x / 2 powi e) = n * 2 ^ t" by (simp only: roundEven_int)
  moreover have "real_of_int (n * 2 ^ t) * 2 powi e = x"
    using \<open>x / 2 powi e = real_of_int (n * 2 ^ t)\<close> by (simp add: field_simps)
  moreover have "\<bar>x\<bar> < 2 ^ 1024"
  proof -
    have "(2::real) ^ 53 / 2 ^ k \<le> 2 ^ 53" by (simp add: field_simps)
    also have "\<dots> < 2 ^ 1024" by simp
    finally show ?thesis using ax by simp
  qed
  ultimately show ?thesis unfolding fl_def Let_def e_def[symmetric] x_def[symmetric] by simp
qed

lemma fl_dyadicI:
  assumes "k \<le> 1074"
    and "k < 1074 \<longrightarrow> 2 ^ 52 \<le> \<bar>x\<bar> * 2 ^ k"
    and "\<bar>x\<bar> * 2 ^ k < 2 ^ 53"
    and "\<bar>x * 2 ^ k - real_of_int m\<bar> < 1 / 2"
  shows "fl x = Some (real_of_int m / 2 ^ k)"
proof -
  have p: "(2::real) powi (- int k) = 1 / 2 ^ k"
    by (simp add: power_int_minus_divide power_int_of_nat)
  have p52: "(2::real) powi (- int k + 52) = 2 ^ 52 / 2 ^ k"
    using power_int_add[of "2::real" "- int k" 52] p by simp
  have p53: "(2::real) powi (- int k + 53) = 2 ^ 53 / 2 ^ k"
    using power_int_add[of "2::real" "- int k" 53] p by simp
  have "\<bar>x * 2 ^ k\<bar> = \<bar>x\<bar> * 2 ^ k" by (simp add: abs_mult)
  then have m: "\<bar>real_of_int m\<bar> < 2 ^ 53 + 1" using assms(3,4) by linarith
  have "\<bar>real_of_int m * 2 powi (- int k)\<bar> \<le> \<bar>real_of_int m\<bar>"
    unfolding p by (simp add: abs_mult field_simps mult_le_cancel_left1)
  also have "\<dots> < 2 ^ 1024" using m by simp
  finally have big: "\<bar>real_of_int m * 2 powi (- int k)\<bar> < 2 ^ 1024" .
  have "fl x = Some (real_of_int m * 2 powi (- int k))"
  proof (rule fl_eqI)
    show "- 1074 \<le> - int k" "- int k \<le> 971" using assms(1) by simp_all
    show "- 1074 < - int k \<longrightarrow> 2 powi (- int k + 52) \<le> \<bar>x\<bar>"
      unfolding p52 using assms(2) by (simp add: field_simps)
    show "- int k < 971 \<longrightarrow> \<bar>x\<bar> < 2 powi (- int k + 53)"
      unfolding p53 using assms(3) by (simp add: field_simps)
    show "\<bar>x / 2 powi (- int k) - real_of_int m\<bar> < 1 / 2"
      unfolding p using assms(4) by simp
    show "\<bar>real_of_int m * 2 powi (- int k)\<bar> < 2 ^ 1024" by (rule big)
  qed
  then show ?thesis by (simp add: p)
qed

lemma roundEven_tie:
  assumes "even m" and "y = real_of_int m - 1 / 2 \<or> y = real_of_int m + 1 / 2"
  shows "roundEven y = m"
proof -
  from assms(2) show ?thesis
  proof
    assume y: "y = real_of_int m - 1 / 2"
    then have f: "\<lfloor>y\<rfloor> = m - 1" by linarith
    have d: "y - real_of_int (m - 1) = 1 / 2" using y by simp
    have "odd (m - 1)" using assms(1) by simp
    then show ?thesis unfolding roundEven_def Let_def f d by simp
  next
    assume y: "y = real_of_int m + 1 / 2"
    then have f: "\<lfloor>y\<rfloor> = m" by linarith
    have d: "y - real_of_int m = 1 / 2" using y by simp
    show ?thesis unfolding roundEven_def Let_def f d using assms(1) by simp
  qed
qed

lemma fl_dyadic_tieI:
  assumes "k \<le> 1074"
    and "k < 1074 \<longrightarrow> 2 ^ 52 \<le> \<bar>x\<bar> * 2 ^ k"
    and "\<bar>x\<bar> * 2 ^ k < 2 ^ 53"
    and "even m"
    and "x * 2 ^ k = real_of_int m - 1 / 2 \<or> x * 2 ^ k = real_of_int m + 1 / 2"
  shows "fl x = Some (real_of_int m / 2 ^ k)"
proof -
  have p: "(2::real) powi (- int k) = 1 / 2 ^ k"
    by (simp add: power_int_minus_divide power_int_of_nat)
  have p52: "(2::real) powi (- int k + 52) = 2 ^ 52 / 2 ^ k"
    using power_int_add[of "2::real" "- int k" 52] p by simp
  have p53: "(2::real) powi (- int k + 53) = 2 ^ 53 / 2 ^ k"
    using power_int_add[of "2::real" "- int k" 53] p by simp
  have e: "ulpExp x = - int k"
  proof (rule ulpExp_eqI)
    show "- 1074 \<le> - int k" "- int k \<le> 971" using assms(1) by simp_all
    show "- 1074 < - int k \<longrightarrow> 2 powi (- int k + 52) \<le> \<bar>x\<bar>"
      unfolding p52 using assms(2) by (simp add: field_simps)
    show "- int k < 971 \<longrightarrow> \<bar>x\<bar> < 2 powi (- int k + 53)"
      unfolding p53 using assms(3) by (simp add: field_simps)
  qed
  have r: "roundEven (x / 2 powi (- int k)) = m"
    unfolding p using assms(4,5) by (intro roundEven_tie) simp_all
  have "\<bar>x * 2 ^ k\<bar> = \<bar>x\<bar> * 2 ^ k" by (simp add: abs_mult)
  then have m: "\<bar>real_of_int m\<bar> < 2 ^ 53 + 1" using assms(3,5) by linarith
  have "\<bar>real_of_int m * 2 powi (- int k)\<bar> \<le> \<bar>real_of_int m\<bar>"
    unfolding p by (simp add: abs_mult field_simps mult_le_cancel_left1)
  also have "\<dots> < 2 ^ 1024" using m by simp
  finally have big: "\<bar>real_of_int m * 2 powi (- int k)\<bar> < 2 ^ 1024" .
  have "fl x = Some (real_of_int m * 2 powi (- int k))"
    unfolding fl_def Let_def e r using big by simp
  then show ?thesis by (simp add: p)
qed

lemma fl_small:
  "fl 0 = Some 0" "fl 10 = Some 10" "fl (- 10) = Some (- 10)"
  "fl 20 = Some 20" "fl (- 20) = Some (- 20)" "fl 30 = Some 30"
  using fl_exact[of 0 0] fl_exact[of 10 0] fl_exact[of "- 10" 0]
    fl_exact[of 20 0] fl_exact[of "- 20" 0] fl_exact[of 30 0]
  by simp_all

lemma isallnan3_Nil: "isallnan3 []"
  by (simp add: isallnan3_def)

text \<open>
  C9. The superober's check appends an error exactly when both moments have no elevation
  or both measurement cubes are all NaN, and appends one warning and no error when exactly
  one cube is all NaN; the dealiaser's check appends an error exactly when VRAD has no
  datasets or its measurements are all NaN.
\<close>

theorem checkData_classification:
  assumes "stored (dbz d)" and "stored (vrad d)"
  shows "(errors (superober_checkData d newSuperober) \<noteq> []
           \<longleftrightarrow> (nel (dbz d) = 0 \<and> nel (vrad d) = 0)
               \<or> (isallnan3 (meas (dbz d)) \<and> isallnan3 (meas (vrad d))))
       \<and> (isallnan3 (meas (dbz d)) \<noteq> isallnan3 (meas (vrad d))
           \<longrightarrow> errors (superober_checkData d newSuperober) = []
             \<and> length (warnings (superober_checkData d newSuperober)) = 1)
       \<and> (errors (dealiaser_checkData d newDealiaser) \<noteq> []
           \<longleftrightarrow> length (datasets (vrad d)) = 0 \<or> isallnan3 (meas (vrad d)))"
proof -
  have both_empty: "isallnan3 (meas (dbz d)) \<and> isallnan3 (meas (vrad d))"
    if "nel (dbz d) = 0 \<and> nel (vrad d) = 0"
    using that assms by (auto simp add: stored_def isallnan3_Nil)
  have sup_err: "errors (superober_checkData d newSuperober) \<noteq> []
           \<longleftrightarrow> (nel (dbz d) = 0 \<and> nel (vrad d) = 0)
               \<or> (isallnan3 (meas (dbz d)) \<and> isallnan3 (meas (vrad d)))"
    by (simp add: superober_checkData_def newSuperober_def error_def warning_def Let_def)
  have sup_warn: "errors (superober_checkData d newSuperober) = []
             \<and> length (warnings (superober_checkData d newSuperober)) = 1"
    if "isallnan3 (meas (dbz d)) \<noteq> isallnan3 (meas (vrad d))"
    using that both_empty
    by (auto simp add: superober_checkData_def newSuperober_def error_def warning_def Let_def)
  have deal: "errors (dealiaser_checkData d newDealiaser) \<noteq> []
           \<longleftrightarrow> length (datasets (vrad d)) = 0 \<or> isallnan3 (meas (vrad d))"
    by (simp add: dealiaser_checkData_def newDealiaser_def error_def Let_def)
  from sup_err sup_warn deal show ?thesis by blast
qed

theorem checkData_classification_witness:
  "stored (dbz (oneBinVolume dNaN (Some 1))) \<and> stored (vrad (oneBinVolume dNaN (Some 1)))
   \<and> isallnan3 (meas (dbz (oneBinVolume dNaN (Some 1))))
       \<noteq> isallnan3 (meas (vrad (oneBinVolume dNaN (Some 1))))
   \<and> errors (superober_checkData (oneBinVolume dNaN (Some 1)) newSuperober) = []
   \<and> length (warnings (superober_checkData (oneBinVolume dNaN (Some 1)) newSuperober)) = 1
   \<and> errors (dealiaser_checkData (oneBinVolume dNaN (Some 1)) newDealiaser) = []"
proof -
  let ?d = "oneBinVolume dNaN (Some 1)"
  have h1: "stored (dbz ?d)" and h2: "stored (vrad ?d)"
    by (simp_all add: stored_def oneBinVolume_def oneBin_def emptyMeasurement_def)
  have h3: "isallnan3 (meas (dbz ?d)) \<noteq> isallnan3 (meas (vrad ?d))"
    by (simp add: isallnan3_def isnan_def oneBinVolume_def oneBin_def emptyMeasurement_def)
  have h4: "\<not> (length (datasets (vrad ?d)) = 0 \<or> isallnan3 (meas (vrad ?d)))"
    by (simp add: isallnan3_def isnan_def oneBinVolume_def oneBin_def emptyMeasurement_def)
  from checkData_classification [OF h1 h2] h3 h4
  have "errors (superober_checkData ?d newSuperober) = []
      \<and> length (warnings (superober_checkData ?d newSuperober)) = 1
      \<and> errors (dealiaser_checkData ?d newDealiaser) = []"
    by blast
  with h1 h2 h3 show ?thesis by blast
qed

subsection \<open>Loops that count and loops that fill\<close>

lemma countUp_closed:
  assumes "0 < step"
  shows "countUp j bound step acc
       = Some (acc @ map (\<lambda>i. j + int i * step) [0..<nat ((bound - j + step - 1) div step)])"
proof (induction "nat (bound - j)" arbitrary: j acc rule: less_induct)
  case less
  show ?case
  proof (cases "j < bound")
    case False
    then have "(bound - j + step - 1) div step \<le> (step - 1) div step"
      using assms by (intro zdiv_mono1) auto
    then have "(bound - j + step - 1) div step \<le> 0"
      using assms by (simp add: div_pos_pos_trivial)
    then show ?thesis using False by (subst countUp.simps) simp
  next
    case True
    have lt: "nat (bound - (j + step)) < nat (bound - j)" using True assms by linarith
    have cnt: "(bound - j + step - 1) div step = (bound - (j + step) + step - 1) div step + 1"
    proof -
      have "bound - j + step - 1 = (bound - (j + step) + step - 1) + 1 * step" by simp
      then show ?thesis using assms
        by (metis div_add_self2 less_irrefl mult_1)
    qed
    have nn: "0 \<le> (bound - (j + step) + step - 1) div step"
      using True assms by (simp add: pos_imp_zdiv_nonneg_iff)
    have "[0..<nat ((bound - j + step - 1) div step)]
        = 0 # map Suc [0..<nat ((bound - (j + step) + step - 1) div step)]"
      using nn cnt by (simp add: nat_add_distrib upt_conv_Cons map_Suc_upt del: upt_Suc)
    then have "map (\<lambda>i. j + int i * step) [0..<nat ((bound - j + step - 1) div step)]
        = j # map (\<lambda>i. (j + step) + int i * step) [0..<nat ((bound - (j + step) + step - 1) div step)]"
      by (simp add: algebra_simps)
    then show ?thesis
      using True less(1)[OF lt, of "acc @ [j]"] by (subst countUp.simps) simp
  qed
qed

lemma pred_div:
  assumes "0 < (b::int)"
  shows "(a - 1) div b = (if b dvd a then a div b - 1 else a div b)"
proof (cases "b dvd a")
  case True
  then have a: "a = b * (a div b)" by simp
  have "a - 1 = b * (a div b - 1) + (b - 1)" using a by (simp add: algebra_simps)
  then have "(a - 1) div b = a div b - 1"
    using assms by (intro int_div_pos_eq[where r = "b - 1"]) auto
  then show ?thesis using True by simp
next
  case False
  then have r: "0 < a mod b" using assms
    by (metis mod_eq_0_iff_dvd less_le pos_mod_sign)
  have "a - 1 = b * (a div b) + (a mod b - 1)" by (simp add: algebra_simps)
  moreover have "a mod b - 1 < b" using pos_mod_bound[OF assms, of a] by linarith
  ultimately have "(a - 1) div b = a div b"
    using assms r by (intro int_div_pos_eq[where r = "a mod b - 1"]) auto
  then show ?thesis using False by simp
qed

lemma rangeBorders_closed:
  assumes "0 < binF" and "0 \<le> nr0"
  shows "rangeBorders binF nr0 = Inr (map (\<lambda>i. int i * binF) [0..<nat (nr0 div binF) + 1])"
proof -
  let ?q = "nr0 div binF"
  have q0: "0 \<le> ?q" using assms by (simp add: pos_imp_zdiv_nonneg_iff)
  have cnt: "(nr0 + binF - 0 + binF - 1) div binF = (nr0 - 1) div binF + 2"
  proof -
    have e: "nr0 + binF - 0 + binF - 1 = (nr0 - 1) + 2 * binF" by simp
    have "((nr0 - 1) + 2 * binF) div binF = 2 + (nr0 - 1) div binF"
      using assms by (intro div_mult_self1) simp
    then show ?thesis unfolding e by simp
  qed
  have cu: "countUp 0 (nr0 + binF) binF []
      = Some (map (\<lambda>i. int i * binF) [0..<nat ((nr0 - 1) div binF + 2)])"
    using countUp_closed[OF assms(1), of 0 "nr0 + binF" "[]"] cnt by simp
  show ?thesis
  proof (cases "binF dvd nr0")
    case True
    then have n: "nat ((nr0 - 1) div binF + 2) = Suc (nat ?q)"
      using pred_div[OF assms(1), of nr0] q0 by simp
    have "int (nat ?q) * binF = nr0" using True q0 by simp
    then show ?thesis using cu n by (simp add: rangeBorders_def)
  next
    case False
    then have n: "nat ((nr0 - 1) div binF + 2) = Suc (Suc (nat ?q))"
      using pred_div[OF assms(1), of nr0] q0 by simp
    have "nr0 = ?q * binF + nr0 mod binF" by simp
    moreover have "nr0 mod binF < binF" using assms(1) by (rule pos_mod_bound)
    ultimately have "nr0 < ?q * binF + binF" by linarith
    then have "nr0 < (?q + 1) * binF" by (simp add: algebra_simps)
    then have "nr0 < int (Suc (nat ?q)) * binF" using q0 by (simp add: algebra_simps)
    then show ?thesis using cu n q0 by (simp add: rangeBorders_def butlast_append)
  qed
qed


lemma fold_update_nth:
  "fold (\<lambda>i v. v[i := f i]) is v ! e = (if e \<in> set is \<and> e < length v then f e else v ! e)"
proof (induction "is" arbitrary: v)
  case Nil
  show ?case by simp
next
  case (Cons i "is")
  have "fold (\<lambda>i v. v[i := f i]) (i # is) v ! e
      = (if e \<in> set is \<and> e < length (v[i := f i]) then f e else v[i := f i] ! e)"
    by (simp only: fold_Cons comp_apply Cons.IH)
  also have "\<dots> = (if e \<in> set (i # is) \<and> e < length v then f e else v ! e)"
    by (cases "e = i") (auto simp add: list_update_beyond)
  finally show ?case .
qed

lemma fold_update_length [simp]:
  "length (fold (\<lambda>i v. v[i := f i v]) is v) = length v"
  by (induction "is" arbitrary: v) simp_all

lemma prepareDims_fold:
  "fold (prepareDims binF rayF src) is (a, b)
     = (fold (\<lambda>i v. v[i := (nr src ! i) sdiv binF]) is a,
        fold (\<lambda>i v. v[i := (naz src ! i) sdiv rayF]) is b)"
  by (induction "is" arbitrary: a b) (simp_all add: prepareDims_def)

lemma prepareCoords_fold:
  "fold (prepareCoords binF src snaz snr) is (a, b, c, d)
     = (fold (\<lambda>i v. v[i := linspace (v ! i) (Some 0) (Some (2 * Pi)) (snaz ! i)]) is a,
        fold (\<lambda>i v. v[i := rstarts src ! i]) is b,
        fold (\<lambda>i v. v[i := dmul (dbl binF) (rscales src ! i)]) is c,
        fold (\<lambda>i v. v[i := linspace (v ! i) (rstarts src ! i)
               (dadd (rstarts src ! i) (dmul (dmul (dbl binF) (rscales src ! i)) (dbl (snr ! i))))
               (snr ! i)]) is d)"
  by (induction "is" arbitrary: a b c d) (simp_all add: prepareCoords_def Let_def)

lemma fold_max_ge: "(a::int) \<le> fold max xs a"
proof (induction xs arbitrary: a)
  case Nil
  show ?case by simp
next
  case (Cons x xs)
  have "a \<le> max x a" by simp
  also have "\<dots> \<le> fold max xs (max x a)" by (rule Cons.IH)
  finally show ?case by simp
qed

lemma max_element_nonneg:
  assumes "v \<noteq> []" and "\<forall>x\<in>set v. 0 \<le> x"
  shows "0 \<le> max_element v"
proof -
  have "0 \<le> hd v" using assms by simp
  also have "hd v \<le> fold max (tl v) (hd v)" by (rule fold_max_ge)
  finally show ?thesis by (simp add: max_element_def)
qed

lemma sdiv_nonneg:
  assumes "0 \<le> (a::int)" and "0 < b"
  shows "a sdiv b = a div b"
  using assms by (simp add: signed_divide_int_def sgn_if)

lemma prepareMoment_ok:
  assumes binF: "0 < binF" and rayF: "0 < rayF" and ok: "dims_ok src"
  shows "\<exists>sm. prepareMoment binF rayF src dst = Inr sm
     \<and> length (naz sm) = nat (nel src) \<and> length (nr sm) = nat (nel src)
     \<and> (\<forall>e < nat (nel src).
           naz sm ! e = \<lfloor>real_of_int (naz src ! e) / real_of_int rayF\<rfloor>
         \<and> nr sm ! e = \<lfloor>real_of_int (nr src ! e) / real_of_int binF\<rfloor>
         \<and> rscales sm ! e = dmul (dbl binF) (rscales src ! e)
         \<and> rstarts sm ! e = rstarts src ! e)"
proof (cases "nel src > 0")
  case False
  then show ?thesis using ok by (simp add: prepareMoment_def dims_ok_def Let_def)
next
  case True
  define n where "n = nat (nel src)"
  define snr where "snr = fold (\<lambda>i v. v[i := (nr src ! i) sdiv binF]) [0..<n] (replicate n iNaN)"
  define snaz where "snaz = fold (\<lambda>i v. v[i := (naz src ! i) sdiv rayF]) [0..<n] (replicate n iNaN)"
  have npos: "0 < n" using True by (simp add: n_def)
  have src_nonneg: "0 \<le> nr src ! e \<and> 0 \<le> naz src ! e" if "e < n" for e
    using ok that by (simp add: dims_ok_def list_all_length n_def)
  have nr_nth: "snr ! e = (nr src ! e) div binF" if "e < n" for e
    using that binF src_nonneg[OF that] by (simp add: snr_def fold_update_nth sdiv_nonneg)
  have naz_nth: "snaz ! e = (naz src ! e) div rayF" if "e < n" for e
    using that rayF src_nonneg[OF that] by (simp add: snaz_def fold_update_nth sdiv_nonneg)
  have len: "length snr = n" "length snaz = n" by (simp_all add: snr_def snaz_def)
  have nr_nonneg: "\<forall>x\<in>set snr. 0 \<le> x"
  proof
    fix x assume "x \<in> set snr"
    then obtain e where e: "e < n" "snr ! e = x" unfolding in_set_conv_nth len by blast
    have "0 \<le> (nr src ! e) div binF"
      using src_nonneg[OF e(1)] binF by (simp add: pos_imp_zdiv_nonneg_iff)
    then show "0 \<le> x" using e nr_nth[OF e(1)] by simp
  qed
  have naz_nonneg: "\<forall>x\<in>set snaz. 0 \<le> x"
  proof
    fix x assume "x \<in> set snaz"
    then obtain e where e: "e < n" "snaz ! e = x" unfolding in_set_conv_nth len by blast
    have "0 \<le> (naz src ! e) div rayF"
      using src_nonneg[OF e(1)] rayF by (simp add: pos_imp_zdiv_nonneg_iff)
    then show "0 \<le> x" using e naz_nth[OF e(1)] by simp
  qed
  have ne: "snr \<noteq> []" "snaz \<noteq> []" using npos len by auto
  have sel: "\<not> (max_element snr < 0 \<or> max_element snaz < 0)"
    using max_element_nonneg[OF ne(1) nr_nonneg] max_element_nonneg[OF ne(2) naz_nonneg] by simp
  have b0: "\<not> (binF = 0 \<or> rayF = 0)" using binF rayF by simp
  have dims: "fold (prepareDims binF rayF src) [0..<n] (replicate n iNaN, replicate n iNaN) = (snr, snaz)"
    by (simp add: prepareDims_fold snr_def snaz_def)
  obtain sm where sm: "prepareMoment binF rayF src dst = Inr sm"
    and f1: "naz sm = snaz" and f2: "nr sm = snr"
    and f3: "rscales sm = fold (\<lambda>i v. v[i := dmul (dbl binF) (rscales src ! i)]) [0..<n] (replicate n dNaN)"
    and f4: "rstarts sm = fold (\<lambda>i v. v[i := rstarts src ! i]) [0..<n] (replicate n dNaN)"
    unfolding prepareMoment_def Let_def n_def[symmetric]
    by (simp add: True b0 dims sel prepareCoords_fold del: fold_simps)
  show ?thesis
    using sm f1 f2 f3 f4 nr_nth naz_nth len
    by (simp add: fold_update_nth floor_divide_of_int_eq n_def[symmetric])
qed


text \<open>
  C5. After grid preparation, for every elevation the superobed ray count is the floor of
  the source ray count over the ray factor, the superobed gate count is the floor of the
  source gate count over the bin factor, the superobed range scale is the bin factor times
  the source range scale and the range start is kept, for DBZ and for VRAD alike.
\<close>

theorem superobed_dimensions:
  assumes "0 < rangeBinFactor st" and "0 < rayAngleFactor st"
    and "dims_ok (dbz d)" and "dims_ok (vrad d)"
  shows "\<exists>d'. prepareMetadata st d = Inr d'
     \<and> length (naz (sdbz d')) = nat (nel (dbz d)) \<and> length (nr (sdbz d')) = nat (nel (dbz d))
     \<and> (\<forall>e < nat (nel (dbz d)).
           naz (sdbz d') ! e = \<lfloor>real_of_int (naz (dbz d) ! e) / real_of_int (rayAngleFactor st)\<rfloor>
         \<and> nr (sdbz d') ! e = \<lfloor>real_of_int (nr (dbz d) ! e) / real_of_int (rangeBinFactor st)\<rfloor>
         \<and> rscales (sdbz d') ! e = dmul (dbl (rangeBinFactor st)) (rscales (dbz d) ! e)
         \<and> rstarts (sdbz d') ! e = rstarts (dbz d) ! e)
     \<and> length (naz (svrad d')) = nat (nel (vrad d)) \<and> length (nr (svrad d')) = nat (nel (vrad d))
     \<and> (\<forall>e < nat (nel (vrad d)).
           naz (svrad d') ! e = \<lfloor>real_of_int (naz (vrad d) ! e) / real_of_int (rayAngleFactor st)\<rfloor>
         \<and> nr (svrad d') ! e = \<lfloor>real_of_int (nr (vrad d) ! e) / real_of_int (rangeBinFactor st)\<rfloor>
         \<and> rscales (svrad d') ! e = dmul (dbl (rangeBinFactor st)) (rscales (vrad d) ! e)
         \<and> rstarts (svrad d') ! e = rstarts (vrad d) ! e)"
proof -
  from prepareMoment_ok [OF assms(1) assms(2) assms(3), of "sdbz d"]
  obtain sd where sd: "prepareMoment (rangeBinFactor st) (rayAngleFactor st) (dbz d) (sdbz d) = Inr sd"
    and sd_len: "length (naz sd) = nat (nel (dbz d))" "length (nr sd) = nat (nel (dbz d))"
    and sd_nth: "\<forall>e < nat (nel (dbz d)).
           naz sd ! e = \<lfloor>real_of_int (naz (dbz d) ! e) / real_of_int (rayAngleFactor st)\<rfloor>
         \<and> nr sd ! e = \<lfloor>real_of_int (nr (dbz d) ! e) / real_of_int (rangeBinFactor st)\<rfloor>
         \<and> rscales sd ! e = dmul (dbl (rangeBinFactor st)) (rscales (dbz d) ! e)
         \<and> rstarts sd ! e = rstarts (dbz d) ! e"
    by blast
  from prepareMoment_ok [OF assms(1) assms(2) assms(4), of "svrad d"]
  obtain sv where sv: "prepareMoment (rangeBinFactor st) (rayAngleFactor st) (vrad d) (svrad d) = Inr sv"
    and sv_len: "length (naz sv) = nat (nel (vrad d))" "length (nr sv) = nat (nel (vrad d))"
    and sv_nth: "\<forall>e < nat (nel (vrad d)).
           naz sv ! e = \<lfloor>real_of_int (naz (vrad d) ! e) / real_of_int (rayAngleFactor st)\<rfloor>
         \<and> nr sv ! e = \<lfloor>real_of_int (nr (vrad d) ! e) / real_of_int (rangeBinFactor st)\<rfloor>
         \<and> rscales sv ! e = dmul (dbl (rangeBinFactor st)) (rscales (vrad d) ! e)
         \<and> rstarts sv ! e = rstarts (vrad d) ! e"
    by blast
  have "prepareMetadata st d = Inr (d\<lparr> sdbz := sd, svrad := sv \<rparr>)"
    by (simp add: prepareMetadata_def sd sv)
  then show ?thesis using sd_len sd_nth sv_len sv_nth by simp
qed

theorem superobed_dimensions_witness:
  "0 < rangeBinFactor s4Settings \<and> 0 < rayAngleFactor s4Settings
   \<and> dims_ok (dbz s4Volume) \<and> dims_ok (vrad s4Volume)
   \<and> (\<exists>d'. prepareMetadata s4Settings s4Volume = Inr d'
         \<and> naz (sdbz d') = [5] \<and> nr (sdbz d') = [5] \<and> rscales (sdbz d') ! 0 = Some 4000
         \<and> naz (svrad d') = [5] \<and> nr (svrad d') = [5] \<and> rstarts (svrad d') ! 0 = Some 0)"
proof -
  have h1: "0 < rangeBinFactor s4Settings" and h2: "0 < rayAngleFactor s4Settings"
    by (simp_all add: s4Settings_def)
  have h3: "dims_ok (dbz s4Volume)" and h4: "dims_ok (vrad s4Volume)"
    by (simp_all add: dims_ok_def s4Volume_def s4Moment_def emptyMeasurement_def)
  from superobed_dimensions [OF h1 h2 h3 h4]
  obtain d' where d': "prepareMetadata s4Settings s4Volume = Inr d'"
    and l1: "length (naz (sdbz d')) = nat (nel (dbz s4Volume))"
            "length (nr (sdbz d')) = nat (nel (dbz s4Volume))"
    and n1: "\<forall>e < nat (nel (dbz s4Volume)).
           naz (sdbz d') ! e = \<lfloor>real_of_int (naz (dbz s4Volume) ! e) / real_of_int (rayAngleFactor s4Settings)\<rfloor>
         \<and> nr (sdbz d') ! e = \<lfloor>real_of_int (nr (dbz s4Volume) ! e) / real_of_int (rangeBinFactor s4Settings)\<rfloor>
         \<and> rscales (sdbz d') ! e = dmul (dbl (rangeBinFactor s4Settings)) (rscales (dbz s4Volume) ! e)
         \<and> rstarts (sdbz d') ! e = rstarts (dbz s4Volume) ! e"
    and l2: "length (naz (svrad d')) = nat (nel (vrad s4Volume))"
            "length (nr (svrad d')) = nat (nel (vrad s4Volume))"
    and n2: "\<forall>e < nat (nel (vrad s4Volume)).
           naz (svrad d') ! e = \<lfloor>real_of_int (naz (vrad s4Volume) ! e) / real_of_int (rayAngleFactor s4Settings)\<rfloor>
         \<and> nr (svrad d') ! e = \<lfloor>real_of_int (nr (vrad s4Volume) ! e) / real_of_int (rangeBinFactor s4Settings)\<rfloor>
         \<and> rscales (svrad d') ! e = dmul (dbl (rangeBinFactor s4Settings)) (rscales (vrad s4Volume) ! e)
         \<and> rstarts (svrad d') ! e = rstarts (vrad s4Volume) ! e"
    by blast
  have one: "nat (nel (dbz s4Volume)) = 1" "nat (nel (vrad s4Volume)) = 1"
    by (simp_all add: s4Volume_def s4Moment_def emptyMeasurement_def)
  have single: "xs = [xs ! 0]" if "length xs = 1" for xs :: "int list"
    using that by (cases xs) simp_all
  have v1: "naz (sdbz d') ! 0 = 5 \<and> nr (sdbz d') ! 0 = 5 \<and> rscales (sdbz d') ! 0 = Some 4000"
    using n1 one
    by (simp add: s4Volume_def s4Moment_def s4Settings_def emptyMeasurement_def dmul_def dbl_def)
  have v2: "naz (svrad d') ! 0 = 5 \<and> nr (svrad d') ! 0 = 5 \<and> rstarts (svrad d') ! 0 = Some 0"
    using n2 one
    by (simp add: s4Volume_def s4Moment_def s4Settings_def emptyMeasurement_def dmul_def dbl_def)
  have "naz (sdbz d') = [5]" "nr (sdbz d') = [5]" "naz (svrad d') = [5]" "nr (svrad d') = [5]"
    using single[of "naz (sdbz d')"] single[of "nr (sdbz d')"]
          single[of "naz (svrad d')"] single[of "nr (svrad d')"] l1 l2 one v1 v2
    by simp_all
  with h1 h2 h3 h4 d' v1 v2 show ?thesis by blast
qed


subsection \<open>Bin borders\<close>

lemma bordersLoop_tabs:
  assumes "bordersLoop behind st src dst is b = Inr b'"
  shows "(\<forall>i\<in>set is. \<exists>x. elevationBorders (behind i) st (naz src ! i) (nr src ! i) (naz dst ! i) (nr dst ! i) (rscales src ! i) = Inr x)
     \<and> rangeBorders_tab b' = rangeBorders_tab b @
          map (\<lambda>i. fst (projr (elevationBorders (behind i) st (naz src ! i) (nr src ! i) (naz dst ! i) (nr dst ! i) (rscales src ! i)))) is
     \<and> startRayBorders b' = startRayBorders b @
          map (\<lambda>i. fst (snd (projr (elevationBorders (behind i) st (naz src ! i) (nr src ! i) (naz dst ! i) (nr dst ! i) (rscales src ! i))))) is
     \<and> endRayBorders b' = endRayBorders b @
          map (\<lambda>i. snd (snd (projr (elevationBorders (behind i) st (naz src ! i) (nr src ! i) (naz dst ! i) (nr dst ! i) (rscales src ! i))))) is"
  using assms
proof (induction "is" arbitrary: b)
  case Nil
  then show ?case by simp
next
  case (Cons i "is")
  let ?E = "elevationBorders (behind i) st (naz src ! i) (nr src ! i) (naz dst ! i) (nr dst ! i) (rscales src ! i)"
  from Cons.prems obtain rb sb eb where E: "?E = Inr (rb, sb, eb)"
    by (auto split: sum.splits)
  let ?b1 = "\<lparr> rangeBorders_tab = rangeBorders_tab b @ [rb],
              startRayBorders = startRayBorders b @ [sb],
              endRayBorders = endRayBorders b @ [eb] \<rparr>"
  have "bordersLoop behind st src dst is ?b1 = Inr b'" using Cons.prems E by simp
  from Cons.IH[OF this] show ?case using E by simp
qed

lemma sorted_le_last:
  assumes "sorted xs" and "x \<in> set xs"
  shows "x \<le> last xs"
proof -
  from assms(2) obtain i where i: "i < length xs" "xs ! i = x"
    unfolding in_set_conv_nth by blast
  then have "xs \<noteq> []" by auto
  then have "last xs = xs ! (length xs - 1)" by (rule last_conv_nth)
  moreover have "xs ! i \<le> xs ! (length xs - 1)"
    using assms(1) i(1) by (intro sorted_nth_mono) auto
  ultimately show ?thesis using i(2) by simp
qed

lemma limIdxAt_mono:
  assumes "z \<le> z'" and "z' \<le> zmax"
  shows "limIdxAt L zmax sz z \<le> limIdxAt L zmax sz z'"
proof -
  let ?a = "real_of_int (2 * (zmax - z) + 1)"
  let ?a' = "real_of_int (2 * (zmax - z') + 1)"
  have a: "1 \<le> ?a'" "?a' \<le> ?a" using assms by simp_all
  show ?thesis
  proof (cases "L < 0")
    case True
    have "L / ?a < 0" "L / ?a' < 0" using True a by (simp_all add: divide_neg_pos)
    then have "\<lfloor>L / ?a - 1\<rfloor> + 1 < 0" "\<lfloor>L / ?a' - 1\<rfloor> + 1 < 0" by linarith+
    then show ?thesis by (simp add: limIdxAt_def Let_def)
  next
    case False
    then have "L / ?a \<le> L / ?a'" using a by (intro divide_left_mono) auto
    then have "\<lfloor>L / ?a - 1\<rfloor> + 1 \<le> \<lfloor>L / ?a' - 1\<rfloor> + 1" by (simp add: floor_mono)
    moreover have "0 \<le> L / ?a" using False a by simp
    then have "0 \<le> \<lfloor>L / ?a - 1\<rfloor> + 1" by linarith
    ultimately show ?thesis by (auto simp add: limIdxAt_def Let_def)
  qed
qed

lemma limIdxAt_nonneg:
  assumes "0 \<le> sz" and "z \<le> zmax"
  shows "0 \<le> limIdxAt L zmax sz z"
  using assms by (auto simp add: limIdxAt_def Let_def)

lemma limStep_fold:
  assumes "sorted lims" and "lims \<noteq> []"
    and "sorted (map (limIdxAt L zmax sz) zl)"
    and "\<forall>z\<in>set zl. last lims \<le> limIdxAt L zmax sz z"
  shows "sorted (fst (fold (limStep L zmax sz) zl (lims, fac)))
       \<and> fst (fold (limStep L zmax sz) zl (lims, fac)) \<noteq> []
       \<and> snd (fold (limStep L zmax sz) zl (lims, fac)) = fac @ zl"
  using assms
proof (induction zl arbitrary: lims fac)
  case Nil
  then show ?case by simp
next
  case (Cons z zl)
  let ?g = "limIdxAt L zmax sz"
  let ?lim1 = "if ?g z \<noteq> last lims then lims @ [?g z] else lims"
  have step: "limStep L zmax sz z (lims, fac) = (?lim1, fac @ [z])"
    by (simp add: limStep_def Let_def)
  have le: "last lims \<le> ?g z" using Cons.prems(4) by simp
  have all_le: "\<forall>x\<in>set lims. x \<le> ?g z"
  proof
    fix x assume x: "x \<in> set lims"
    have "x \<le> last lims"
      using Cons.prems(1) x by (rule sorted_le_last)
    then show "x \<le> ?g z" using le by simp
  qed
  have s1: "sorted ?lim1" using Cons.prems(1) all_le by (simp add: sorted_append)
  have n1: "?lim1 \<noteq> []" using Cons.prems(2) by simp
  have l1: "last ?lim1 = ?g z" by simp
  have s2: "sorted (map ?g zl)" using Cons.prems(3) by simp
  have b1: "\<forall>z'\<in>set zl. last ?lim1 \<le> ?g z'" using Cons.prems(3) l1 by simp
  from Cons.IH[OF s1 n1 s2 b1, of "fac @ [z]"] show ?case by (simp add: step)
qed


lemma sorted_map_mono:
  assumes "sorted xs" and "\<And>x y. x \<in> set xs \<Longrightarrow> y \<in> set xs \<Longrightarrow> x \<le> y \<Longrightarrow> f x \<le> f y"
  shows "sorted (map f xs)"
  using assms by (induction xs) auto

lemma sorted_update_last:
  assumes "sorted xs" and "xs \<noteq> []" and "last xs \<le> (v::int)"
  shows "sorted (xs[length xs - 1 := v])"
proof -
  have xs: "xs = butlast xs @ [last xs]" using assms(2) by simp
  have "xs[length xs - 1 := v] = butlast xs @ [v]"
    by (subst xs) (simp add: list_update_append)
  moreover have "sorted (butlast xs @ [last xs])" using assms(1) xs by simp
  then have "sorted (butlast xs @ [v])" using assms(3) by (auto simp add: sorted_append)
  ultimately show ?thesis by simp
qed

lemma rayLimits_sorted:
  assumes "0 \<le> sz" and "rayLimits L zmax sz = (limIdxs, facSubs)"
  shows "sorted limIdxs \<and> facSubs = [0..zmax]"
proof -
  let ?r = "fold (limStep L zmax sz) [0..zmax] ([0], [])"
  have mono: "sorted (map (limIdxAt L zmax sz) [0..zmax])"
    by (rule sorted_map_mono) (auto intro: limIdxAt_mono)
  have lower: "\<forall>z\<in>set [0..zmax]. last [0] \<le> limIdxAt L zmax sz z"
    using assms(1) by (auto intro: limIdxAt_nonneg)
  have inv: "sorted (fst ?r) \<and> fst ?r \<noteq> [] \<and> snd ?r = [] @ [0..zmax]"
    by (rule limStep_fold[OF _ _ mono lower]) simp_all
  have fac: "facSubs = snd ?r" and lims: "limIdxs =
      (if 0 \<le> last (fst ?r) \<and> last (fst ?r) < sz then (fst ?r)[length (fst ?r) - 1 := sz] else fst ?r)"
    using assms(2) by (simp_all add: rayLimits_def Let_def split_beta)
  have "sorted limIdxs"
  proof (cases "0 \<le> last (fst ?r) \<and> last (fst ?r) < sz")
    case True
    then have "last (fst ?r) \<le> sz" by simp
    with inv have "sorted ((fst ?r)[length (fst ?r) - 1 := sz])"
      by (intro sorted_update_last) simp_all
    then show ?thesis by (simp only: lims if_P[OF True])
  next
    case False
    show ?thesis using inv by (simp only: lims if_not_P[OF False])
  qed
  then show ?thesis using fac inv by simp
qed

lemma facSubLoop_mono:
  assumes "sorted limIdxs" and "\<forall>k < length facSubs. facSubs ! k = int k"
    and "\<forall>k. \<not> (behind k \<le> j \<and> j < behind (k + 1))"
  shows "set ks \<subseteq> {..<length facSubs} \<Longrightarrow>
     c = - 1 \<or> (\<exists>k0 < length limIdxs. c = int k0 \<and> limIdxs ! k0 \<le> j) \<Longrightarrow>
     c \<le> facSubLoop limIdxs facSubs behind j ks c
     \<and> (facSubLoop limIdxs facSubs behind j ks c = - 1
        \<or> (\<exists>k0 < length limIdxs. facSubLoop limIdxs facSubs behind j ks c = int k0 \<and> limIdxs ! k0 \<le> j))"
proof (induction ks arbitrary: c)
  case Nil
  then show ?case by simp
next
  case (Cons k ks)
  have kf: "k < length facSubs" and ks: "set ks \<subseteq> {..<length facSubs}"
    using Cons.prems(1) by auto
  show ?case
  proof (cases "peek limIdxs behind k \<le> j \<and> j < peek limIdxs behind (k + 1)")
    case False
    then have "facSubLoop limIdxs facSubs behind j (k # ks) c = facSubLoop limIdxs facSubs behind j ks c"
      by auto
    with Cons.IH[OF ks Cons.prems(2)] show ?thesis by simp
  next
    case True
    have k1: "k < length limIdxs"
    proof (rule ccontr)
      assume "\<not> k < length limIdxs"
      then have "peek limIdxs behind k = behind k" "peek limIdxs behind (k + 1) = behind (k + 1)"
        by (simp_all add: peek_def)
      with True assms(3) show False by auto
    qed
    then have low: "limIdxs ! k \<le> j" using True by (simp add: peek_def)
    have run: "facSubLoop limIdxs facSubs behind j (k # ks) c = facSubLoop limIdxs facSubs behind j ks (int k)"
      using True assms(2) kf by simp
    have inv_k: "int k = - 1 \<or> (\<exists>k0 < length limIdxs. int k = int k0 \<and> limIdxs ! k0 \<le> j)"
      using k1 low by auto
    have c_le: "c \<le> int k"
    proof (cases "c = - 1")
      case True
      then show ?thesis by simp
    next
      case False
      then obtain k0 where k0: "k0 < length limIdxs" "c = int k0" "limIdxs ! k0 \<le> j"
        using Cons.prems(2) by blast
      have "k0 \<le> k"
      proof (rule ccontr)
        assume "\<not> k0 \<le> k"
        then have le: "k + 1 \<le> k0" by simp
        then have "k + 1 < length limIdxs" using k0(1) by simp
        then have "peek limIdxs behind (k + 1) = limIdxs ! (k + 1)" by (simp add: peek_def)
        moreover have "limIdxs ! (k + 1) \<le> limIdxs ! k0"
          using assms(1) k0(1) le by (intro sorted_nth_mono) auto
        ultimately show False using True k0(3) by simp
      qed
      then show ?thesis using k0(2) by simp
    qed
    from Cons.IH[OF ks inv_k] c_le show ?thesis unfolding run by auto
  qed
qed


lemma rayLoop_inv:
  assumes srt: "sorted limIdxs" and fid: "\<forall>k < length facSubs. facSubs ! k = int k"
    and quiet: "\<forall>j k. \<not> (behind j k \<le> int j \<and> int j < behind j (k + 1))"
  shows "rayLoop limIdxs facSubs behind oS oE nsaz js (c, S, E) = Inr (c', S', E') \<Longrightarrow>
     sorted js \<Longrightarrow> distinct js \<Longrightarrow>
     (\<forall>j\<in>set js. j < length S \<and> j < length E \<and> length (S ! j) = nat nsaz \<and> length (E ! j) = nat nsaz) \<Longrightarrow>
     (c = - 1 \<or> (\<exists>k0 < length limIdxs. c = int k0 \<and> (\<forall>j\<in>set js. limIdxs ! k0 \<le> int j))) \<Longrightarrow>
     (\<forall>j\<in>set js. \<forall>k < nat nsaz. E' ! j ! k - S' ! j ! k \<le> oE ! k - oS ! k - 2 * c)
     \<and> (\<forall>j1\<in>set js. \<forall>j2\<in>set js. j1 \<le> j2 \<longrightarrow>
           (\<forall>k < nat nsaz. E' ! j2 ! k - S' ! j2 ! k \<le> E' ! j1 ! k - S' ! j1 ! k))
     \<and> (\<forall>j. j \<notin> set js \<longrightarrow> S' ! j = S ! j \<and> E' ! j = E ! j)
     \<and> length S' = length S \<and> length E' = length E"
proof (induction js arbitrary: c S E)
  case Nil
  then show ?case by simp
next
  case (Cons j js)
  define c1 where "c1 = facSubLoop limIdxs facSubs (behind j) (int j) [0..<length facSubs] c"
  have inv_j: "c = - 1 \<or> (\<exists>k0 < length limIdxs. c = int k0 \<and> limIdxs ! k0 \<le> int j)"
    using Cons.prems(5) by auto
  have qj: "\<forall>k. \<not> (behind j k \<le> int j \<and> int j < behind j (k + 1))" using quiet by blast
  have mono: "c \<le> c1 \<and> (c1 = - 1 \<or> (\<exists>k0 < length limIdxs. c1 = int k0 \<and> limIdxs ! k0 \<le> int j))"
    unfolding c1_def by (rule facSubLoop_mono[OF srt fid qj _ inv_j]) auto
  define rowS where "rowS = fold (\<lambda>k row. row[k := oS ! k + c1]) [0..<nat nsaz] (S ! j)"
  define rowE where "rowE = fold (\<lambda>k row. row[k := oE ! k - c1]) [0..<nat nsaz] (E ! j)"
  have run: "rayLoop limIdxs facSubs behind oS oE nsaz js (c1, S[j := rowS], E[j := rowE]) = Inr (c', S', E')"
    using Cons.prems(1) by (simp add: rowS_def rowE_def c1_def Let_def split: if_splits)
  have jb: "j < length S" "j < length E" "length (S ! j) = nat nsaz" "length (E ! j) = nat nsaz"
    using Cons.prems(4) by simp_all
  have rows: "rowS ! k = oS ! k + c1 \<and> rowE ! k = oE ! k - c1" if "k < nat nsaz" for k
    using that jb by (simp add: rowS_def rowE_def fold_update_nth)
  have jnot: "j \<notin> set js" and dist: "distinct js" and sjs: "sorted js"
    and jle: "\<forall>j'\<in>set js. j \<le> j'"
    using Cons.prems(2,3) by auto
  have shape: "\<forall>j'\<in>set js. j' < length (S[j := rowS]) \<and> j' < length (E[j := rowE])
       \<and> length (S[j := rowS] ! j') = nat nsaz \<and> length (E[j := rowE] ! j') = nat nsaz"
    using Cons.prems(4) jnot by (auto simp add: nth_list_update)
  have inv1: "c1 = - 1 \<or> (\<exists>k0 < length limIdxs. c1 = int k0 \<and> (\<forall>j'\<in>set js. limIdxs ! k0 \<le> int j'))"
  proof (cases "c1 = - 1")
    case True
    then show ?thesis by simp
  next
    case False
    then obtain k0 where k0: "k0 < length limIdxs" "c1 = int k0" "limIdxs ! k0 \<le> int j"
      using mono by blast
    have "\<forall>j'\<in>set js. limIdxs ! k0 \<le> int j'" using k0(3) jle by fastforce
    then show ?thesis using k0 by blast
  qed
  from Cons.IH[OF run sjs dist shape inv1]
  have a: "\<forall>j'\<in>set js. \<forall>k < nat nsaz. E' ! j' ! k - S' ! j' ! k \<le> oE ! k - oS ! k - 2 * c1"
    and b: "\<forall>j1\<in>set js. \<forall>j2\<in>set js. j1 \<le> j2 \<longrightarrow>
           (\<forall>k < nat nsaz. E' ! j2 ! k - S' ! j2 ! k \<le> E' ! j1 ! k - S' ! j1 ! k)"
    and u: "\<forall>j'. j' \<notin> set js \<longrightarrow> S' ! j' = S[j := rowS] ! j' \<and> E' ! j' = E[j := rowE] ! j'"
    and l: "length S' = length S" "length E' = length E"
    by simp_all
  have atj: "S' ! j = rowS" "E' ! j = rowE" using u jnot jb by simp_all
  have dj: "E' ! j ! k - S' ! j ! k = oE ! k - oS ! k - 2 * c1" if "k < nat nsaz" for k
    using rows[OF that] atj by simp
  have A: "\<forall>j'\<in>set (j # js). \<forall>k < nat nsaz. E' ! j' ! k - S' ! j' ! k \<le> oE ! k - oS ! k - 2 * c"
  proof (intro ballI allI impI)
    fix j' k assume j': "j' \<in> set (j # js)" and k: "k < nat nsaz"
    show "E' ! j' ! k - S' ! j' ! k \<le> oE ! k - oS ! k - 2 * c"
    proof (cases "j' = j")
      case True
      then show ?thesis using dj[OF k] mono by simp
    next
      case False
      then have "j' \<in> set js" using j' by simp
      then have "E' ! j' ! k - S' ! j' ! k \<le> oE ! k - oS ! k - 2 * c1" using a k by blast
      then show ?thesis using mono by simp
    qed
  qed
  have B: "\<forall>j1\<in>set (j # js). \<forall>j2\<in>set (j # js). j1 \<le> j2 \<longrightarrow>
           (\<forall>k < nat nsaz. E' ! j2 ! k - S' ! j2 ! k \<le> E' ! j1 ! k - S' ! j1 ! k)"
  proof (intro ballI allI impI)
    fix j1 j2 k
    assume j1: "j1 \<in> set (j # js)" and j2: "j2 \<in> set (j # js)" and le: "j1 \<le> j2" and k: "k < nat nsaz"
    show "E' ! j2 ! k - S' ! j2 ! k \<le> E' ! j1 ! k - S' ! j1 ! k"
    proof (cases "j2 = j")
      case True
      then have "j1 = j" using j1 le jle by fastforce
      then show ?thesis using True by simp
    next
      case False
      then have j2s: "j2 \<in> set js" using j2 by simp
      show ?thesis
      proof (cases "j1 = j")
        case True
        have "E' ! j2 ! k - S' ! j2 ! k \<le> oE ! k - oS ! k - 2 * c1" using a j2s k by blast
        then show ?thesis using True dj[OF k] by simp
      next
        case False
        then have "j1 \<in> set js" using j1 by simp
        then show ?thesis using b j2s le k by blast
      qed
    qed
  qed
  have U: "\<forall>j'. j' \<notin> set (j # js) \<longrightarrow> S' ! j' = S ! j' \<and> E' ! j' = E ! j'"
    using u by (auto simp add: nth_list_update_neq)
  from A B U l show ?case by blast
qed

lemma elevationBorders_InrD:
  assumes "elevationBorders behind st naz0 nr0 nsaz nsr rscale = Inr (rb, S, E)"
  shows "\<exists>L origStart c' limIdxs facSubs.
      rayLimits L ((rayAngleFactor st - 1) sdiv 2) (int (length rb)) = (limIdxs, facSubs)
    \<and> rayLoop limIdxs facSubs behind origStart (map (\<lambda>j. rayAngleFactor st + j) origStart) nsaz
            [0..<nat nsr]
            (- 1, replicate (nat nsr) (replicate (nat nsaz) iNaN),
                  replicate (nat nsr) (replicate (nat nsaz) iNaN)) = Inr (c', S, E)"
proof -
  from assms obtain crb where crb: "rangeBorders (rangeBinFactor st) nr0 = Inr crb"
    by (cases "rangeBorders (rangeBinFactor st) nr0") (simp_all add: elevationBorders_def Let_def)
  let ?zmax = "(rayAngleFactor st - 1) sdiv 2"
  from assms crb obtain L where L: "(if ?zmax < 0 then Some 0 else arcLimit st naz0 rscale) = Some L"
    by (cases "if ?zmax < 0 then Some 0 else arcLimit st naz0 rscale")
       (simp_all add: elevationBorders_def Let_def)
  obtain limIdxs facSubs where rl: "rayLimits L ?zmax (int (length crb)) = (limIdxs, facSubs)"
    by (cases "rayLimits L ?zmax (int (length crb))")
  from assms crb L rl obtain origStart where os: "countUp 0 naz0 (rayAngleFactor st) [] = Some origStart"
    by (cases "countUp 0 naz0 (rayAngleFactor st) []") (simp_all add: elevationBorders_def Let_def)
  from assms crb L rl os have sz: "\<not> (nsr < 0 \<or> nsaz < 0)"
    by (auto simp add: elevationBorders_def Let_def split: if_splits)
  from assms crb L rl os sz obtain c' where
    "rayLoop limIdxs facSubs behind origStart (map (\<lambda>j. rayAngleFactor st + j) origStart) nsaz
            [0..<nat nsr]
            (- 1, replicate (nat nsr) (replicate (nat nsaz) iNaN),
                  replicate (nat nsr) (replicate (nat nsaz) iNaN)) = Inr (c', S, E)"
    and "rb = crb"
    by (auto simp add: elevationBorders_def Let_def split: sum.splits)
  with rl show ?thesis by blast
qed

lemma elevation_ray_counts:
  assumes "elevationBorders behind st naz0 nr0 nsaz nsr rscale = Inr (rb, S, E)"
    and "\<forall>j k. \<not> (behind j k \<le> int j \<and> int j < behind j (k + 1))"
    and "j1 \<le> j2" and "j2 < nat nsr" and "k < nat nsaz"
  shows "E ! j2 ! k - S ! j2 ! k \<le> E ! j1 ! k - S ! j1 ! k"
proof -
  from elevationBorders_InrD[OF assms(1)] obtain L origStart c' limIdxs facSubs where
    rl: "rayLimits L ((rayAngleFactor st - 1) sdiv 2) (int (length rb)) = (limIdxs, facSubs)"
    and loop': "rayLoop limIdxs facSubs behind origStart (map (\<lambda>j. rayAngleFactor st + j) origStart) nsaz
            [0..<nat nsr]
            (- 1, replicate (nat nsr) (replicate (nat nsaz) iNaN),
                  replicate (nat nsr) (replicate (nat nsaz) iNaN)) = Inr (c', S, E)"
    by blast
  have s: "sorted limIdxs" and f: "facSubs = [0..(rayAngleFactor st - 1) sdiv 2]"
    using rayLimits_sorted[OF _ rl] by simp_all
  have fid: "\<forall>k < length facSubs. facSubs ! k = int k" using f by simp
  have "\<forall>j1\<in>set [0..<nat nsr]. \<forall>j2\<in>set [0..<nat nsr]. j1 \<le> j2 \<longrightarrow>
           (\<forall>k < nat nsaz. E ! j2 ! k - S ! j2 ! k \<le> E ! j1 ! k - S ! j1 ! k)"
    using rayLoop_inv[OF s fid assms(2) loop'] by simp
  then show ?thesis using assms(3-5) by simp
qed


lemma s4_arcLimit: "arcLimit s4Settings 16 (Some 1000) = Some (129600 * 20 / (2 * Pi * 64 * 1000))"
  by (simp add: arcLimit_def s4Settings_def Pi_def int32_def)

lemma s4_L_bounds: "6 < 129600 * 20 / (2 * Pi * 64 * 1000)" "129600 * 20 / (2 * Pi * 64 * 1000) < 7"
  by (simp_all add: Pi_def)

lemma floor_between: "real_of_int a \<le> x \<Longrightarrow> x < real_of_int a + 1 \<Longrightarrow> \<lfloor>x\<rfloor> = a"
  by linarith

lemma s4_limits:
  assumes "6 < L" and "L < 7"
  shows "rayLimits L 1 6 = ([0, 2, 6], [0, 1])"
proof -
  have f0: "\<lfloor>L / 3 - 1\<rfloor> = 1" using assms by (intro floor_between) simp_all
  have f1: "\<lfloor>L - 1\<rfloor> = 5" using assms by (intro floor_between) simp_all
  have g0: "limIdxAt L 1 6 0 = 2" using f0 assms by (simp add: limIdxAt_def Let_def)
  have g1: "limIdxAt L 1 6 1 = 6" using f1 assms by (simp add: limIdxAt_def Let_def)
  have u: "[0..1::int] = [0, 1]" by (simp add: upto.simps)
  show ?thesis
    by (simp add: rayLimits_def u limStep_def g0 g1 Let_def)
qed

lemma s4_rangeBorders: "rangeBorders 4 20 = Inr [0, 4, 8, 12, 16, 20]"
  by (simp add: rangeBorders_closed upt_rec)

lemma s4_origStart: "countUp 0 16 3 [] = Some [0, 3, 6, 9, 12, 15]"
  by (simp add: countUp_closed upt_rec)

lemma s4_elevation:
  "elevationBorders behind s4Settings 16 20 5 5 (Some 1000)
    = Inr ([0, 4, 8, 12, 16, 20],
      [[0, 3, 6, 9, 12], [0, 3, 6, 9, 12], [1, 4, 7, 10, 13], [1, 4, 7, 10, 13], [1, 4, 7, 10, 13]],
      [[3, 6, 9, 12, 15], [3, 6, 9, 12, 15], [2, 5, 8, 11, 14], [2, 5, 8, 11, 14], [2, 5, 8, 11, 14]])"
proof -
  have st: "rangeBinFactor s4Settings = 4" "rayAngleFactor s4Settings = 3"
    by (simp_all add: s4Settings_def)
  have z: "(3 - 1) sdiv 2 = (1::int)" by (simp add: signed_divide_int_def)
  obtain L where L: "arcLimit s4Settings 16 (Some 1000) = Some L" and b: "6 < L" "L < 7"
    using s4_arcLimit s4_L_bounds by blast
  have five: "[0..<nat 5] = [0, 1, 2, 3, 4]" by (simp add: upt_rec)
  have two: "[0..<length [0, 1::int]] = [0, 1]" by (simp add: upt_rec)
  show ?thesis
    unfolding elevationBorders_def Let_def st z
    by (simp add: s4_rangeBorders L s4_limits[OF b] s4_origStart five two iNaN_def
        numeral_nat replicate_Suc peek_def)
qed


lemma rayLoop_shape:
  "rayLoop limIdxs facSubs behind oS oE nsaz js (c, S, E) = Inr (c', S', E') \<Longrightarrow>
     length S' = length S \<and> length E' = length E
     \<and> (\<forall>j. length (S' ! j) = length (S ! j) \<and> length (E' ! j) = length (E ! j))"
proof (induction js arbitrary: c S E)
  case Nil
  then show ?case by simp
next
  case (Cons j js)
  from Cons.prems obtain c1 where
    run: "rayLoop limIdxs facSubs behind oS oE nsaz js
           (c1, S[j := fold (\<lambda>k row. row[k := oS ! k + c1]) [0..<nat nsaz] (S ! j)],
                E[j := fold (\<lambda>k row. row[k := oE ! k - c1]) [0..<nat nsaz] (E ! j)]) = Inr (c', S', E')"
    by (auto simp add: Let_def split: if_splits)
  have keep: "length (xs[j := r] ! j') = length (xs ! j')" if "length r = length (xs ! j)"
    for xs :: "int list list" and r j'
    using that by (cases "j' = j"; cases "j < length xs") (simp_all add: list_update_beyond)
  from Cons.IH[OF run] show ?case by (simp add: keep)
qed

lemma elevationBorders_shape:
  assumes "elevationBorders behind st naz0 nr0 nsaz nsr rscale = Inr (rb, S, E)"
  shows "length S = nat nsr \<and> length E = nat nsr
       \<and> (\<forall>j < nat nsr. length (S ! j) = nat nsaz \<and> length (E ! j) = nat nsaz)"
proof -
  from elevationBorders_InrD[OF assms] obtain L origStart c' limIdxs facSubs where
    loop': "rayLoop limIdxs facSubs behind origStart (map (\<lambda>j. rayAngleFactor st + j) origStart) nsaz
            [0..<nat nsr]
            (- 1, replicate (nat nsr) (replicate (nat nsaz) iNaN),
                  replicate (nat nsr) (replicate (nat nsaz) iNaN)) = Inr (c', S, E)"
    by blast
  from rayLoop_shape[OF loop'] show ?thesis by simp
qed

lemma elevationBorders_range:
  assumes "elevationBorders behind st naz0 nr0 nsaz nsr rscale = Inr (rb, S, E)"
  shows "rangeBorders (rangeBinFactor st) nr0 = Inr rb"
  using assms
  by (cases "rangeBorders (rangeBinFactor st) nr0")
     (auto simp add: elevationBorders_def Let_def split: option.splits sum.splits if_splits prod.splits)

lemma bordersLoop_nth:
  assumes "bordersLoop behind st src dst [0..<n] \<lparr> rangeBorders_tab = [], startRayBorders = [], endRayBorders = [] \<rparr> = Inr b"
  shows "length (rangeBorders_tab b) = n \<and> length (startRayBorders b) = n \<and> length (endRayBorders b) = n
     \<and> (\<forall>e < n. elevationBorders (behind e) st (naz src ! e) (nr src ! e) (naz dst ! e) (nr dst ! e) (rscales src ! e)
            = Inr (rangeBorders_tab b ! e, startRayBorders b ! e, endRayBorders b ! e))"
proof -
  note t = bordersLoop_tabs[OF assms]
  have "elevationBorders (behind e) st (naz src ! e) (nr src ! e) (naz dst ! e) (nr dst ! e) (rscales src ! e)
            = Inr (rangeBorders_tab b ! e, startRayBorders b ! e, endRayBorders b ! e)" if "e < n" for e
  proof -
    have mem: "e \<in> set [0..<n]" using that by simp
    from t have "\<forall>i\<in>set [0..<n]. \<exists>x.
        elevationBorders (behind i) st (naz src ! i) (nr src ! i) (naz dst ! i) (nr dst ! i) (rscales src ! i) = Inr x"
      by (rule conjunct1)
    from bspec[OF this mem] obtain x where
      x: "elevationBorders (behind e) st (naz src ! e) (nr src ! e) (naz dst ! e) (nr dst ! e) (rscales src ! e) = Inr x"
      ..
    show ?thesis using t that by (simp add: x)
  qed
  then show ?thesis using t by simp
qed

lemma calculateBinBorders_nth:
  assumes "calculateBinBorders behind st d ty = Inr b" and "e < length (startRayBorders b)"
  shows "\<exists>src dst. ((ty = ''DBZ'' \<and> src = dbz d \<and> dst = sdbz d) \<or> (ty = ''VRAD'' \<and> src = vrad d \<and> dst = svrad d))
     \<and> length (rangeBorders_tab b) = length (startRayBorders b)
     \<and> elevationBorders (behind e) st (naz src ! e) (nr src ! e) (naz dst ! e) (nr dst ! e) (rscales src ! e)
            = Inr (rangeBorders_tab b ! e, startRayBorders b ! e, endRayBorders b ! e)"
proof (cases "ty = ''DBZ''")
  case True
  then have "bordersLoop behind st (dbz d) (sdbz d) [0..<nat (nel (sdbz d))]
      \<lparr> rangeBorders_tab = [], startRayBorders = [], endRayBorders = [] \<rparr> = Inr b"
    using assms(1) by (simp add: calculateBinBorders_def)
  from bordersLoop_nth[OF this] assms(2) True show ?thesis by auto
next
  case False
  show ?thesis
  proof (cases "ty = ''VRAD''")
    case True
    then have "bordersLoop behind st (vrad d) (svrad d) [0..<nat (nel (svrad d))]
        \<lparr> rangeBorders_tab = [], startRayBorders = [], endRayBorders = [] \<rparr> = Inr b"
      using assms(1) False by (simp add: calculateBinBorders_def)
    from bordersLoop_nth[OF this] assms(2) True show ?thesis by auto
  next
    case nv: False
    then have "b = \<lparr> rangeBorders_tab = [], startRayBorders = [], endRayBorders = [] \<rparr>"
      using assms(1) False by (simp add: calculateBinBorders_def)
    then show ?thesis using assms(2) by simp
  qed
qed


lemma calculateBinBorders_lengths:
  assumes "calculateBinBorders behind st d ty = Inr b"
  shows "length (rangeBorders_tab b) = length (startRayBorders b)"
proof (cases "ty = ''DBZ''")
  case True
  then have "bordersLoop behind st (dbz d) (sdbz d) [0..<nat (nel (sdbz d))]
      \<lparr> rangeBorders_tab = [], startRayBorders = [], endRayBorders = [] \<rparr> = Inr b"
    using assms(1) by (simp add: calculateBinBorders_def)
  from bordersLoop_nth[OF this] show ?thesis by simp
next
  case False
  show ?thesis
  proof (cases "ty = ''VRAD''")
    case True
    then have "bordersLoop behind st (vrad d) (svrad d) [0..<nat (nel (svrad d))]
        \<lparr> rangeBorders_tab = [], startRayBorders = [], endRayBorders = [] \<rparr> = Inr b"
      using assms(1) False by (simp add: calculateBinBorders_def)
    from bordersLoop_nth[OF this] show ?thesis by simp
  next
    case nv: False
    then have "b = \<lparr> rangeBorders_tab = [], startRayBorders = [], endRayBorders = [] \<rparr>"
      using assms(1) False by (simp add: calculateBinBorders_def)
    then show ?thesis by simp
  qed
qed

lemma s4_tables: "calculateBinBorders behind s4Settings s4Superobed ''DBZ'' = Inr s4Borders"
proof -
  have one: "[0..<nat 1] = [0]" by simp
  show ?thesis
    by (simp add: calculateBinBorders_def s4Superobed_def s4Volume_def s4Moment_def
        emptyMeasurement_def one s4_elevation s4Borders_def)
qed

lemma tier_limits:
  assumes "30 \<le> L" and "L < 35"
  shows "rayLimits L 3 6 = ([0, 4, 6], [0, 1, 2, 3])"
proof -
  have f0: "\<lfloor>L / 7 - 1\<rfloor> = 3" using assms by (intro floor_between) simp_all
  have f1: "5 \<le> \<lfloor>L / 5 - 1\<rfloor>" using assms by (simp add: le_floor_iff)
  have f2: "5 \<le> \<lfloor>L / 3 - 1\<rfloor>" using assms by (simp add: le_floor_iff)
  have f3: "5 \<le> \<lfloor>L - 1\<rfloor>" using assms by (simp add: le_floor_iff)
  have g0: "limIdxAt L 3 6 0 = 4" using f0 assms by (simp add: limIdxAt_def Let_def)
  have g1: "limIdxAt L 3 6 1 = 6" using f1 by (simp add: limIdxAt_def Let_def)
  have g2: "limIdxAt L 3 6 2 = 6" using f2 by (simp add: limIdxAt_def Let_def)
  have g3: "limIdxAt L 3 6 3 = 6" using f3 by (simp add: limIdxAt_def Let_def)
  have u: "[0..3::int] = [0, 1, 2, 3]" by (simp add: upto.simps)
  show ?thesis
    by (simp add: rayLimits_def u limStep_def g0 g1 g2 g3 Let_def)
qed

lemma tier_elevation:
  "elevationBorders (zeroed 0) tierSettings 21 20 3 5 (Some 1000)
    = Inr ([0, 4, 8, 12, 16, 20],
      [[0, 7, 14], [0, 7, 14], [0, 7, 14], [0, 7, 14], [1, 8, 15]],
      [[7, 14, 21], [7, 14, 21], [7, 14, 21], [7, 14, 21], [6, 13, 20]])"
proof -
  have st: "rangeBinFactor tierSettings = 4" "rayAngleFactor tierSettings = 7"
    by (simp_all add: tierSettings_def)
  have z: "(7 - 1) sdiv 2 = (3::int)" by (simp add: signed_divide_int_def)
  have "arcLimit tierSettings 21 (Some 1000) = Some (129600 * 125 / (2 * Pi * 84 * 1000))"
    by (simp add: arcLimit_def tierSettings_def Pi_def int32_def)
  moreover have "30 \<le> 129600 * 125 / (2 * Pi * 84 * 1000)" "129600 * 125 / (2 * Pi * 84 * 1000) < 35"
    by (simp_all add: Pi_def)
  ultimately obtain L where L: "arcLimit tierSettings 21 (Some 1000) = Some L" and b: "30 \<le> L" "L < 35"
    by blast
  have os: "countUp 0 21 7 [] = Some [0, 7, 14]" by (simp add: countUp_closed upt_rec)
  have five: "[0..<nat 5] = [0, 1, 2, 3, 4]" by (simp add: upt_rec)
  have four: "[0..<length [0, 1, 2, 3::int]] = [0, 1, 2, 3]" by (simp add: upt_rec)
  show ?thesis
    unfolding elevationBorders_def Let_def st z
    by (simp add: s4_rangeBorders L tier_limits[OF b] os five four iNaN_def
        numeral_nat replicate_Suc peek_def zeroed_def)
qed

lemma tier_tables: "calculateBinBorders zeroed tierSettings tierSuperobed ''DBZ'' = Inr tierBorders"
proof -
  have one: "[0..<nat 1] = [0]" by simp
  show ?thesis
    by (simp add: calculateBinBorders_def tierSuperobed_def tierVolume_def tierMoment_def
        emptyMeasurement_def one tier_elevation tierBorders_def)
qed

text \<open>
  C6 (as amended). For a positive bin factor and a non-negative gate count, the loop ends
  and the range-border list is \<open>0, binFactor, \<dots>, q\<cdot>binFactor\<close> with \<open>q = \<lfloor>nr / binFactor\<rfloor>\<close>:
  it has \<open>q + 1\<close> entries and its final entry is \<open>q\<cdot>binFactor\<close>, which is \<open>nr\<close> exactly when
  the bin factor divides \<open>nr\<close>; this list is the entry of every elevation with that gate
  count in the table that \<^verbatim>\<open>_calculateBinBorders\<close> returns.
\<close>

theorem range_borders_multiples:
  assumes "0 < rangeBinFactor st" and "0 \<le> nr0"
  shows "\<exists>bs. rangeBorders (rangeBinFactor st) nr0 = Inr bs
      \<and> bs = map (\<lambda>i. int i * rangeBinFactor st) [0..<nat \<lfloor>real_of_int nr0 / real_of_int (rangeBinFactor st)\<rfloor> + 1]
      \<and> length bs = nat \<lfloor>real_of_int nr0 / real_of_int (rangeBinFactor st)\<rfloor> + 1
      \<and> last bs = rangeBinFactor st * \<lfloor>real_of_int nr0 / real_of_int (rangeBinFactor st)\<rfloor>
      \<and> (last bs = nr0 \<longleftrightarrow> rangeBinFactor st dvd nr0)
      \<and> (\<forall>behind d ty b e. calculateBinBorders behind st d ty = Inr b \<and> e < length (rangeBorders_tab b)
             \<and> nr (if ty = ''DBZ'' then dbz d else vrad d) ! e = nr0
           \<longrightarrow> rangeBorders_tab b ! e = bs)"
proof -
  let ?binF = "rangeBinFactor st"
  let ?q = "nr0 div ?binF"
  let ?bs = "map (\<lambda>i. int i * ?binF) [0..<nat ?q + 1]"
  have fl: "\<lfloor>real_of_int nr0 / real_of_int ?binF\<rfloor> = ?q" by (simp add: floor_divide_of_int_eq)
  have q0: "0 \<le> ?q" using assms by (simp add: pos_imp_zdiv_nonneg_iff)
  have rb: "rangeBorders ?binF nr0 = Inr ?bs" by (rule rangeBorders_closed[OF assms])
  have len: "length ?bs = nat ?q + 1" by simp
  have lst: "last ?bs = ?binF * ?q" using q0 by (simp add: last_map algebra_simps)
  have dv: "last ?bs = nr0 \<longleftrightarrow> ?binF dvd nr0"
  proof
    assume "last ?bs = nr0"
    then have "nr0 = ?binF * ?q" using lst by simp
    then show "?binF dvd nr0" by (rule dvdI)
  next
    assume "?binF dvd nr0"
    then show "last ?bs = nr0" using lst by simp
  qed
  have tab: "rangeBorders_tab b ! e = ?bs"
    if h: "calculateBinBorders behind st d ty = Inr b \<and> e < length (rangeBorders_tab b)
             \<and> nr (if ty = ''DBZ'' then dbz d else vrad d) ! e = nr0" for behind d ty b e
  proof -
    have e: "e < length (startRayBorders b)" using h calculateBinBorders_lengths by metis
    from calculateBinBorders_nth[OF conjunct1[OF h] e] obtain src dst :: HoofMeasurement where
      sel: "(ty = ''DBZ'' \<and> src = dbz d \<and> dst = sdbz d) \<or> (ty = ''VRAD'' \<and> src = vrad d \<and> dst = svrad d)"
      and E: "elevationBorders (behind e) st (naz src ! e) (nr src ! e) (naz dst ! e) (nr dst ! e) (rscales src ! e)
            = Inr (rangeBorders_tab b ! e, startRayBorders b ! e, endRayBorders b ! e)"
      by blast
    have "nr src ! e = nr0" using sel h by auto
    with elevationBorders_range[OF E] rb show ?thesis by simp
  qed
  show ?thesis
    unfolding fl using rb len lst dv tab by blast
qed

theorem range_borders_multiples_witness:
  "0 < rangeBinFactor s4Settings \<and> (0::int) \<le> 20
   \<and> rangeBorders (rangeBinFactor s4Settings) 20 = Inr [0, 4, 8, 12, 16, 20]
   \<and> calculateBinBorders zeroed s4Settings s4Superobed ''DBZ'' = Inr s4Borders
   \<and> (0::nat) < length (rangeBorders_tab s4Borders)
   \<and> nr (if ''DBZ'' = ''DBZ'' then dbz s4Superobed else vrad s4Superobed) ! 0 = 20
   \<and> rangeBorders_tab s4Borders ! 0 = [0, 4, 8, 12, 16, 20]"
proof -
  have h1: "0 < rangeBinFactor s4Settings" by (simp add: s4Settings_def)
  have h2: "(0::int) \<le> 20" by simp
  have "(0::nat) < length (rangeBorders_tab s4Borders)
      \<and> nr (if ''DBZ'' = ''DBZ'' then dbz s4Superobed else vrad s4Superobed) ! 0 = 20"
    by (simp add: s4Borders_def s4Superobed_def s4Volume_def s4Moment_def emptyMeasurement_def)
  with s4_tables[of zeroed]
  have h3: "calculateBinBorders zeroed s4Settings s4Superobed ''DBZ'' = Inr s4Borders
      \<and> (0::nat) < length (rangeBorders_tab s4Borders)
      \<and> nr (if ''DBZ'' = ''DBZ'' then dbz s4Superobed else vrad s4Superobed) ! 0 = 20"
    by (rule conjI)
  from range_borders_multiples [OF h1 h2] obtain bs where
    bs: "rangeBorders (rangeBinFactor s4Settings) 20 = Inr bs"
    and val: "bs = map (\<lambda>i. int i * rangeBinFactor s4Settings)
                [0..<nat \<lfloor>real_of_int 20 / real_of_int (rangeBinFactor s4Settings)\<rfloor> + 1]"
    and tab: "\<forall>behind d ty b e. calculateBinBorders behind s4Settings d ty = Inr b \<and> e < length (rangeBorders_tab b)
             \<and> nr (if ty = ''DBZ'' then dbz d else vrad d) ! e = 20
           \<longrightarrow> rangeBorders_tab b ! e = bs"
    by blast
  have "\<lfloor>real_of_int 20 / real_of_int (rangeBinFactor s4Settings)\<rfloor> = 5"
    by (simp add: s4Settings_def)
  then have v: "bs = [0, 4, 8, 12, 16, 20]"
    using val by (simp add: s4Settings_def upt_rec)
  from tab h3 have "rangeBorders_tab s4Borders ! 0 = bs" by blast
  with h1 h2 h3 bs v show ?thesis by simp
qed

theorem range_borders_final_entry_counterexample:
  "rangeBorders 4 21 = Inr [0, 4, 8, 12, 16, 20] \<and> last [0, 4, 8, 12, 16, 20] \<noteq> (21::int)"
  by (simp add: rangeBorders_closed upt_rec)

lemma table_ray_counts:
  assumes "calculateBinBorders behind st d ty = Inr b"
    and "\<forall>j k. \<not> (behind e j k \<le> int j \<and> int j < behind e j (k + 1))"
    and "e < length (startRayBorders b)"
    and "j1 \<le> j2" and "j2 < length (startRayBorders b ! e)"
    and "k < length (startRayBorders b ! e ! j2)"
  shows "endRayBorders b ! e ! j2 ! k - startRayBorders b ! e ! j2 ! k
       \<le> endRayBorders b ! e ! j1 ! k - startRayBorders b ! e ! j1 ! k"
proof -
  from calculateBinBorders_nth[OF assms(1,3)] obtain src dst :: HoofMeasurement where
    E: "elevationBorders (behind e) st (naz src ! e) (nr src ! e) (naz dst ! e) (nr dst ! e) (rscales src ! e)
            = Inr (rangeBorders_tab b ! e, startRayBorders b ! e, endRayBorders b ! e)"
    by blast
  note sh = elevationBorders_shape[OF E]
  have j2: "j2 < nat (nr dst ! e)" using sh assms(5) by simp
  then have k: "k < nat (naz dst ! e)" using sh assms(6) by simp
  from elevation_ray_counts[OF E assms(2,4) j2 k] show ?thesis .
qed

lemma rayLoop_returns:
  assumes "nat nsaz \<le> length oS"
  shows "\<exists>r. rayLoop limIdxs facSubs behind oS oE nsaz js (c, S, E) = Inr r"
proof (induction js arbitrary: c S E)
  case Nil
  then show ?case by simp
next
  case (Cons j js)
  show ?case using assms Cons.IH by (simp add: Let_def)
qed

lemma elevationBorders_returns:
  assumes "0 < rangeBinFactor st" and "0 < rayAngleFactor st"
    and "0 \<le> naz0" and "0 \<le> nr0"
    and "nsaz = naz0 div rayAngleFactor st" and "nsr = nr0 div rangeBinFactor st"
    and "rscale = Some rs" and "rs \<noteq> 0" and "int32 (naz0 * rangeBinFactor st) \<noteq> 0"
  shows "\<exists>x. elevationBorders behind st naz0 nr0 nsaz nsr rscale = Inr x"
proof -
  let ?zmax = "(rayAngleFactor st - 1) sdiv 2"
  obtain crb where crb: "rangeBorders (rangeBinFactor st) nr0 = Inr crb"
    using rangeBorders_closed[OF assms(1,4)] by blast
  have "2 * Pi * real_of_int (int32 (naz0 * rangeBinFactor st)) * rs \<noteq> 0"
    using assms(8,9) by (simp add: Pi_def)
  then obtain L where L: "arcLimit st naz0 rscale = Some L"
    using assms(7) by (simp add: arcLimit_def)
  have zm: "\<not> ?zmax < 0" using assms(2) by (simp add: sdiv_nonneg)
  obtain limIdxs facSubs where rl: "rayLimits L ?zmax (int (length crb)) = (limIdxs, facSubs)"
    by (cases "rayLimits L ?zmax (int (length crb))")
  let ?os = "map (\<lambda>i. 0 + int i * rayAngleFactor st)
      [0..<nat ((naz0 - 0 + rayAngleFactor st - 1) div rayAngleFactor st)]"
  have os: "countUp 0 naz0 (rayAngleFactor st) [] = Some ?os"
    using countUp_closed[OF assms(2), of 0 naz0 "[]"] by simp
  have "naz0 div rayAngleFactor st \<le> (naz0 - 0 + rayAngleFactor st - 1) div rayAngleFactor st"
    using assms(2) by (intro zdiv_mono1) simp_all
  then have len: "nat nsaz \<le> length ?os" using assms(5) by simp
  have nn: "\<not> (nsr < 0 \<or> nsaz < 0)"
    using assms(1-6) by (simp add: not_less pos_imp_zdiv_nonneg_iff)
  from rayLoop_returns[OF len] obtain r where
    r: "rayLoop limIdxs facSubs behind ?os (map (\<lambda>j. rayAngleFactor st + j) ?os) nsaz [0..<nat nsr]
          (- 1, replicate (nat nsr) (replicate (nat nsaz) iNaN),
                replicate (nat nsr) (replicate (nat nsaz) iNaN)) = Inr r"
    by blast
  obtain c S E where rr: "r = (c, S, E)" by (cases r)
  show ?thesis
    unfolding elevationBorders_def Let_def
    using crb L zm rl os nn r rr by simp
qed

lemma bordersLoop_returns:
  assumes "\<forall>i\<in>set is. \<exists>x. elevationBorders (behind i) st (naz src ! i) (nr src ! i) (naz dst ! i) (nr dst ! i)
      (rscales src ! i) = Inr x"
  shows "\<exists>b'. bordersLoop behind st src dst is b = Inr b'"
  using assms
proof (induction "is" arbitrary: b)
  case Nil
  then show ?case by simp
next
  case (Cons i "is")
  from Cons.prems obtain rb sb eb where
    "elevationBorders (behind i) st (naz src ! i) (nr src ! i) (naz dst ! i) (nr dst ! i) (rscales src ! i)
       = Inr (rb, sb, eb)"
    by (metis list.set_intros(1) prod_cases3)
  moreover have "\<forall>i\<in>set is. \<exists>x. elevationBorders (behind i) st (naz src ! i) (nr src ! i) (naz dst ! i)
      (nr dst ! i) (rscales src ! i) = Inr x"
    using Cons.prems by simp
  ultimately show ?case using Cons.IH by simp
qed

text \<open>
  C7 (as amended). For positive factors and a superobed grid as \<^verbatim>\<open>prepareMetadata\<close> makes it,
  \<^verbatim>\<open>_calculateBinBorders\<close> returns its tables, with one row of ray borders for every coarse
  range bin, and the number of source rays of a coarse cell, \<open>endRay - startRay\<close>, does not
  increase with the coarse range index \<open>j\<close>: a far-range cell folds at most as many source
  rays as a near-range cell of the same coarse azimuth. This holds for every content of
  the memory behind \<^verbatim>\<open>limIdxs\<close> in which no two neighbouring values enclose the range index
  of the pass that reads them, so that no test of the search succeeds on values read
  behind the vector; lemma \<open>table_ray_counts\<close> is the same fact for any tables returned.
\<close>

theorem ray_count_non_increasing:
  assumes "0 < rangeBinFactor st" and "0 < rayAngleFactor st"
    and "(ty = ''DBZ'' \<and> src = dbz d \<and> dst = sdbz d) \<or> (ty = ''VRAD'' \<and> src = vrad d \<and> dst = svrad d)"
    and "superobGrid st src dst"
    and "\<forall>e j k. \<not> (behind e j k \<le> int j \<and> int j < behind e j (k + 1))"
  shows "\<exists>b. calculateBinBorders behind st d ty = Inr b
     \<and> length (startRayBorders b) = nat (nel dst) \<and> length (endRayBorders b) = nat (nel dst)
     \<and> (\<forall>e < nat (nel dst).
           length (startRayBorders b ! e) = nat (nr dst ! e)
         \<and> length (endRayBorders b ! e) = nat (nr dst ! e)
         \<and> (\<forall>j1 j2 k. j1 \<le> j2 \<and> j2 < nat (nr dst ! e) \<and> k < nat (naz dst ! e) \<longrightarrow>
               endRayBorders b ! e ! j2 ! k - startRayBorders b ! e ! j2 ! k
                 \<le> endRayBorders b ! e ! j1 ! k - startRayBorders b ! e ! j1 ! k))"
proof -
  let ?n = "nat (nel dst)"
  let ?empty = "\<lparr> rangeBorders_tab = [], startRayBorders = [], endRayBorders = [] \<rparr>"
  have run: "calculateBinBorders behind st d ty = bordersLoop behind st src dst [0..<?n] ?empty"
    using assms(3) by (auto simp add: calculateBinBorders_def)
  have "\<exists>x. elevationBorders (behind i) st (naz src ! i) (nr src ! i) (naz dst ! i) (nr dst ! i)
      (rscales src ! i) = Inr x" if "i \<in> set [0..<?n]" for i
  proof -
    have i: "i < ?n" using that by simp
    from assms(4) i obtain rs where
      g: "0 \<le> naz src ! i" "0 \<le> nr src ! i" "naz dst ! i = naz src ! i div rayAngleFactor st"
         "nr dst ! i = nr src ! i div rangeBinFactor st" "rscales src ! i = Some rs" "rs \<noteq> 0"
         "int32 (naz src ! i * rangeBinFactor st) \<noteq> 0"
      unfolding superobGrid_def by blast
    show ?thesis by (rule elevationBorders_returns[OF assms(1,2) g])
  qed
  then have "\<forall>i\<in>set [0..<?n]. \<exists>x. elevationBorders (behind i) st (naz src ! i) (nr src ! i) (naz dst ! i)
      (nr dst ! i) (rscales src ! i) = Inr x"
    by blast
  from bordersLoop_returns[OF this] obtain b where
    b: "bordersLoop behind st src dst [0..<?n] ?empty = Inr b"
    by blast
  note nth = bordersLoop_nth[OF b]
  have cb: "calculateBinBorders behind st d ty = Inr b" using run b by simp
  have len: "length (startRayBorders b) = ?n" "length (endRayBorders b) = ?n" using nth by simp_all
  have per: "length (startRayBorders b ! e) = nat (nr dst ! e)
         \<and> length (endRayBorders b ! e) = nat (nr dst ! e)
         \<and> (\<forall>j1 j2 k. j1 \<le> j2 \<and> j2 < nat (nr dst ! e) \<and> k < nat (naz dst ! e) \<longrightarrow>
               endRayBorders b ! e ! j2 ! k - startRayBorders b ! e ! j2 ! k
                 \<le> endRayBorders b ! e ! j1 ! k - startRayBorders b ! e ! j1 ! k)"
    if e: "e < ?n" for e
  proof -
    have E: "elevationBorders (behind e) st (naz src ! e) (nr src ! e) (naz dst ! e) (nr dst ! e) (rscales src ! e)
            = Inr (rangeBorders_tab b ! e, startRayBorders b ! e, endRayBorders b ! e)"
      using nth e by blast
    note sh = elevationBorders_shape[OF E]
    have q: "\<forall>j k. \<not> (behind e j k \<le> int j \<and> int j < behind e j (k + 1))" using assms(5) by blast
    have "endRayBorders b ! e ! j2 ! k - startRayBorders b ! e ! j2 ! k
                 \<le> endRayBorders b ! e ! j1 ! k - startRayBorders b ! e ! j1 ! k"
      if "j1 \<le> j2 \<and> j2 < nat (nr dst ! e) \<and> k < nat (naz dst ! e)" for j1 j2 k
      using elevation_ray_counts[OF E q, of j1 j2 k] that by simp
    then show ?thesis using sh by simp
  qed
  from cb len per show ?thesis by blast
qed

theorem ray_count_non_increasing_witness:
  "0 < rangeBinFactor tierSettings \<and> 0 < rayAngleFactor tierSettings
   \<and> superobGrid tierSettings (dbz tierSuperobed) (sdbz tierSuperobed)
   \<and> (\<forall>e j k. \<not> (zeroed e j k \<le> int j \<and> int j < zeroed e j (k + 1)))
   \<and> calculateBinBorders zeroed tierSettings tierSuperobed ''DBZ'' = Inr tierBorders
   \<and> nat (nel (sdbz tierSuperobed)) = 1 \<and> nat (nr (sdbz tierSuperobed) ! 0) = 5
   \<and> nat (naz (sdbz tierSuperobed) ! 0) = 3
   \<and> endRayBorders tierBorders ! 0 ! 0 ! 0 - startRayBorders tierBorders ! 0 ! 0 ! 0 = 7
   \<and> endRayBorders tierBorders ! 0 ! 4 ! 0 - startRayBorders tierBorders ! 0 ! 4 ! 0 = 5
   \<and> endRayBorders tierBorders ! 0 ! 4 ! 0 - startRayBorders tierBorders ! 0 ! 4 ! 0
       \<le> endRayBorders tierBorders ! 0 ! 0 ! 0 - startRayBorders tierBorders ! 0 ! 0 ! 0"
proof -
  have h1: "0 < rangeBinFactor tierSettings" and h2: "0 < rayAngleFactor tierSettings"
    by (simp_all add: tierSettings_def)
  have h3: "(''DBZ'' = ''DBZ'' \<and> dbz tierSuperobed = dbz tierSuperobed \<and> sdbz tierSuperobed = sdbz tierSuperobed)
      \<or> (''DBZ'' = ''VRAD'' \<and> dbz tierSuperobed = vrad tierSuperobed \<and> sdbz tierSuperobed = svrad tierSuperobed)"
    by simp
  have h4: "superobGrid tierSettings (dbz tierSuperobed) (sdbz tierSuperobed)"
    by (simp add: superobGrid_def tierSuperobed_def tierVolume_def tierMoment_def tierSettings_def
        emptyMeasurement_def int32_def)
  have h5: "\<forall>e j k. \<not> (zeroed e j k \<le> int j \<and> int j < zeroed e j (k + 1))" by (simp add: zeroed_def)
  have dims: "nat (nel (sdbz tierSuperobed)) = 1" "nat (nr (sdbz tierSuperobed) ! 0) = 5"
    "nat (naz (sdbz tierSuperobed) ! 0) = 3"
    by (simp_all add: tierSuperobed_def tierVolume_def emptyMeasurement_def)
  from ray_count_non_increasing [OF h1 h2 h3 h4 h5] obtain b where
    b: "calculateBinBorders zeroed tierSettings tierSuperobed ''DBZ'' = Inr b"
    and mono: "\<forall>e < nat (nel (sdbz tierSuperobed)).
           length (startRayBorders b ! e) = nat (nr (sdbz tierSuperobed) ! e)
         \<and> length (endRayBorders b ! e) = nat (nr (sdbz tierSuperobed) ! e)
         \<and> (\<forall>j1 j2 k. j1 \<le> j2 \<and> j2 < nat (nr (sdbz tierSuperobed) ! e) \<and> k < nat (naz (sdbz tierSuperobed) ! e) \<longrightarrow>
               endRayBorders b ! e ! j2 ! k - startRayBorders b ! e ! j2 ! k
                 \<le> endRayBorders b ! e ! j1 ! k - startRayBorders b ! e ! j1 ! k)"
    by blast
  have bt: "b = tierBorders" using b tier_tables by simp
  have "endRayBorders b ! 0 ! 4 ! 0 - startRayBorders b ! 0 ! 4 ! 0
       \<le> endRayBorders b ! 0 ! 0 ! 0 - startRayBorders b ! 0 ! 0 ! 0"
    using mono dims by simp
  then have le: "endRayBorders tierBorders ! 0 ! 4 ! 0 - startRayBorders tierBorders ! 0 ! 4 ! 0
       \<le> endRayBorders tierBorders ! 0 ! 0 ! 0 - startRayBorders tierBorders ! 0 ! 0 ! 0"
    unfolding bt .
  have v: "endRayBorders tierBorders ! 0 ! 0 ! 0 - startRayBorders tierBorders ! 0 ! 0 ! 0 = 7"
    "endRayBorders tierBorders ! 0 ! 4 ! 0 - startRayBorders tierBorders ! 0 ! 4 ! 0 = 5"
    by (simp_all add: tierBorders_def)
  from h1 h2 h4 h5 tier_tables dims v le show ?thesis by simp
qed

theorem ray_count_non_decreasing_counterexample:
  "rayCount (calculateBinBorders zeroed s4Settings s4Superobed ''DBZ'') 0 0 0 = Some 3
   \<and> rayCount (calculateBinBorders zeroed s4Settings s4Superobed ''DBZ'') 0 2 0 = Some 1
   \<and> \<not> ((3::int) \<le> 1)"
  by (simp add: rayCount_def s4_tables s4Borders_def)


subsection \<open>Aggregation of VRAD\<close>

lemma s6_prepare: "prepareMetadata s6Settings s6Volume = Inr (s6Volume\<lparr> svrad := s6Svrad \<rparr>)"
  by (simp add: prepareMetadata_def prepareMoment_def s6Settings_def s6Volume_def s6Vrad_def s6Svrad_def
      emptyMeasurement_def Let_def prepareDims_def prepareCoords_def max_element_def iNaN_def
      signed_divide_int_def linspace_def dsub_def dadd_def dmul_def dbl_def Pi_def)


lemma s6_limits:
  assumes "6 \<le> L"
  shows "rayLimits L 1 2 = ([0, 2], [0, 1])"
proof -
  have "1 \<le> \<lfloor>L / 3 - 1\<rfloor>" using assms by (simp add: le_floor_iff)
  then have g0: "limIdxAt L 1 2 0 = 2" by (simp add: limIdxAt_def Let_def)
  have "1 \<le> \<lfloor>L - 1\<rfloor>" using assms by (simp add: le_floor_iff)
  then have g1: "limIdxAt L 1 2 1 = 2" by (simp add: limIdxAt_def Let_def)
  have u: "[0..1::int] = [0, 1]" by (simp add: upto.simps)
  show ?thesis
    by (simp add: rayLimits_def u limStep_def g0 g1 Let_def)
qed

lemma s6_elevation: "elevationBorders behind s6Settings 3 3 1 1 (Some 1000) = Inr ([0, 3], [[0]], [[3]])"
proof -
  have st: "rangeBinFactor s6Settings = 3" "rayAngleFactor s6Settings = 3"
    by (simp_all add: s6Settings_def)
  have z: "(3 - 1) sdiv 2 = (1::int)" by (simp add: signed_divide_int_def)
  have "arcLimit s6Settings 3 (Some 1000) = Some (129600 * 20000 / (2 * Pi * 9 * 1000))"
    by (simp add: arcLimit_def s6Settings_def Pi_def int32_def)
  moreover have "6 \<le> 129600 * 20000 / (2 * Pi * 9 * 1000)" by (simp add: Pi_def)
  ultimately obtain L where L: "arcLimit s6Settings 3 (Some 1000) = Some L" and b: "6 \<le> L"
    by blast
  have rb: "rangeBorders 3 3 = Inr [0, 3]" by (simp add: rangeBorders_closed upt_rec)
  have os: "countUp 0 3 3 [] = Some [0]" by (simp add: countUp_closed)
  have two: "[0..<length [0, 1::int]] = [0, 1]" by (simp add: upt_rec)
  show ?thesis
    unfolding elevationBorders_def Let_def st z
    by (simp add: rb L s6_limits[OF b] os two iNaN_def peek_def)
qed

lemma s6_tables: "calculateBinBorders behind s6Settings (s6Volume\<lparr> svrad := s6Svrad \<rparr>) ''VRAD'' = Inr s6Borders"
  by (simp add: calculateBinBorders_def s6Volume_def s6Vrad_def s6Svrad_def
        emptyMeasurement_def s6_elevation s6Borders_def)

lemma s6_roll:
  "roll 1 (Suc 0) 3 3 [[[Some 1, Some 1, Some 1], [Some 1, Some 1, Some 1], [Some 1, Some 1, Some 10]]]
     = [[[Some 1, Some 1, Some 10], [Some 1, Some 1, Some 1], [Some 1, Some 1, Some 1]]]"
  by (simp add: roll_def cube_def put3_def at3_def upt_rec numeral_nat)

lemma s6_stats:
  "vradStats [[Some 1, Some 1, Some 10], [Some 1, Some 1, Some 1], [Some 1, Some 1, Some 1]] 0 3 0 3
     = (9, 9, 15)"
proof -
  have u: "[0..2::int] = [0, 1, 2]" by (simp add: upto.simps)
  show ?thesis by (simp add: vradStats_def u dlt_def)
qed

lemma s6_cell:
  "vradCell s6Settings [[Some 1, Some 1, Some 10], [Some 1, Some 1, Some 1], [Some 1, Some 1, Some 1]] 0 3 0 3
     = Some 1"
  by (simp add: vradCell_def s6_stats s6Settings_def)


lemma s6_superob:
  "meas (svrad (superobVrad s6Settings (s6Volume\<lparr> svrad := s6Svrad \<rparr>) s6Borders)) = [[[Some 1]]]
   \<and> quals (svrad (superobVrad s6Settings (s6Volume\<lparr> svrad := s6Svrad \<rparr>) s6Borders)) = [[[Some 1]]]"
proof -
  have z: "(rayAngleFactor s6Settings - 1) sdiv 2 = 1" "dealiasing s6Settings = False"
    by (simp_all add: s6Settings_def signed_divide_int_def)
  show ?thesis
    unfolding superobVrad_def Let_def z
    by (simp add: s6Volume_def s6Vrad_def s6Svrad_def emptyMeasurement_def s6Borders_def
        s6_roll s6_cell cube_def put3_def)
qed


text \<open>
  C2. On scenario S6 (a coarse cell of the 9 bins \<open>1, \<dots>, 1, 10\<close>, \<^verbatim>\<open>vradMaxStd = 1\<close>,
  \<^verbatim>\<open>vradPercentage = 0.5\<close>) the code runs grid preparation, computes the borders and
  writes the cell: \<^verbatim>\<open>svrad.meas = 1.0\<close> and \<^verbatim>\<open>svrad.quals = 1.0\<close>. Its sums are over the
  bin index \<open>m\<close> (\<open>s = 9\<close>, \<open>s2 = 15\<close>), not over the measurements (\<open>18\<close> and \<open>108\<close>), so the
  standard deviation it tests is \<open>\<surd>(2/3)\<close> and not \<open>\<surd>8\<close>.
\<close>

theorem superob_vrad_S6:
  "prepareMetadata s6Settings s6Volume = Inr (s6Volume\<lparr> svrad := s6Svrad \<rparr>)
   \<and> calculateBinBorders behind s6Settings (s6Volume\<lparr> svrad := s6Svrad \<rparr>) ''VRAD'' = Inr s6Borders
   \<and> vradStats (roll 1 1 3 3 (meas (vrad s6Volume)) ! 0) 0 3 0 3 = (9, 9, 15)
   \<and> meas (svrad (superobVrad s6Settings (s6Volume\<lparr> svrad := s6Svrad \<rparr>) s6Borders)) = [[[Some 1]]]
   \<and> quals (svrad (superobVrad s6Settings (s6Volume\<lparr> svrad := s6Svrad \<rparr>) s6Borders)) = [[[Some 1]]]"
proof -
  have "roll 1 1 3 3 (meas (vrad s6Volume)) ! 0
      = [[Some 1, Some 1, Some 10], [Some 1, Some 1, Some 1], [Some 1, Some 1, Some 1]]"
    using s6_roll by (simp add: s6Volume_def s6Vrad_def emptyMeasurement_def)
  then have "vradStats (roll 1 1 3 3 (meas (vrad s6Volume)) ! 0) 0 3 0 3 = (9, 9, 15)"
    by (simp only: s6_stats)
  with s6_prepare s6_tables s6_superob show ?thesis by simp
qed


subsection \<open>Quantized writer\<close>

lemma minmaxStep_keeps:
  assumes "\<exists>a b. p = (Some a, Some b) \<and> a \<le> v \<and> v \<le> b"
  shows "\<exists>a b. minmaxStep w p = (Some a, Some b) \<and> a \<le> v \<and> v \<le> b"
  using assms by (cases w) (auto simp add: minmaxStep_def)

lemma minmaxStep_adds:
  "\<exists>a b. minmaxStep (Some x) p = (Some a, Some b) \<and> a \<le> x \<and> x \<le> b"
  by (cases p) (auto simp add: minmaxStep_def split: option.splits)

lemma minmax_row:
  assumes "(\<exists>a b. p = (Some a, Some b) \<and> a \<le> v \<and> v \<le> b) \<or> Some v \<in> set row"
  shows "\<exists>a b. fold minmaxStep row p = (Some a, Some b) \<and> a \<le> v \<and> v \<le> b"
  using assms
proof (induction row arbitrary: p)
  case Nil
  then show ?case by simp
next
  case (Cons w row)
  have "(\<exists>a b. minmaxStep w p = (Some a, Some b) \<and> a \<le> v \<and> v \<le> b) \<or> Some v \<in> set row"
  proof (cases "\<exists>a b. p = (Some a, Some b) \<and> a \<le> v \<and> v \<le> b")
    case True
    then show ?thesis using minmaxStep_keeps by blast
  next
    case False
    then have "Some v \<in> set (w # row)" using Cons.prems by blast
    then show ?thesis using minmaxStep_adds[of v p] by auto
  qed
  from Cons.IH[OF this] show ?case by simp
qed

lemma minmax_rows:
  assumes "(\<exists>a b. p = (Some a, Some b) \<and> a \<le> v \<and> v \<le> b) \<or> (\<exists>row\<in>set vec. Some v \<in> set row)"
  shows "\<exists>a b. fold (\<lambda>row. fold minmaxStep row) vec p = (Some a, Some b) \<and> a \<le> v \<and> v \<le> b"
  using assms
proof (induction vec arbitrary: p)
  case Nil
  then show ?case by simp
next
  case (Cons row vec)
  have "(\<exists>a b. fold minmaxStep row p = (Some a, Some b) \<and> a \<le> v \<and> v \<le> b)
      \<or> (\<exists>row\<in>set vec. Some v \<in> set row)"
    using Cons.prems minmax_row[of p v row] by auto
  from Cons.IH[OF this] show ?case by simp
qed

lemma nanminmax2_encloses:
  assumes "j < length el" and "k < length (el ! j)" and "el ! j ! k = Some v"
  shows "\<exists>a b. nanminmax2 el = (Some a, Some b) \<and> a \<le> v \<and> v \<le> b"
proof -
  have "el ! j \<in> set el" using assms(1) by simp
  moreover have "Some v \<in> set (el ! j)" using assms(2,3) by (metis nth_mem)
  ultimately have "\<exists>row\<in>set el. Some v \<in> set row" by blast
  then show ?thesis unfolding nanminmax2_def by (intro minmax_rows) simp
qed

lemma not_allnan:
  assumes "j < length el" and "k < length (el ! j)" and "el ! j ! k = Some v"
  shows "\<not> isallnan2 el"
proof
  assume "isallnan2 el"
  then have "isnan (el ! j ! k)" using assms(1,2) by (simp add: isallnan2_def list_all_length)
  then show False using assms(3) by (simp add: isnan_def)
qed


lemma abs_div_le:
  fixes x g c :: real
  assumes "0 < g" and "\<bar>x\<bar> \<le> c * g"
  shows "\<bar>x / g\<bar> \<le> c"
  using assms by (simp add: abs_divide pos_divide_le_eq abs_of_pos)

lemma gain_facts:
  fixes mn mx A g :: real
  assumes le: "mn \<le> mx" and mA: "\<bar>mn\<bar> \<le> A" "\<bar>mx\<bar> \<le> A"
    and Ag: "A \<le> 2 ^ 45 * g"
    and d1: "fl (mx - mn) = Some d1" and g0: "fl (d1 / 254) = Some g0"
    and e0: "fl (g0 - 0) = Some e0"
    and g: "g = (if \<bar>e0\<bar> \<le> dblEpsilon then 1 else g0)"
  shows "1 / 2 ^ 41 \<le> g"
    and "g = g0 \<longrightarrow> \<bar>254 * g - (mx - mn)\<bar> \<le> g / 32"
    and "g \<noteq> g0 \<longrightarrow> g = 1 \<and> mx - mn \<le> 1 / 2 ^ 20"
proof -
  define D where "D = mx - mn"
  define eta :: real where "eta = 1 / 2 ^ 1075"
  have eta: "0 < eta" "eta \<le> 1 / 2 ^ 200" by (simp_all add: eta_def)
  have D0: "0 \<le> D" using le by (simp add: D_def)
  have DA: "D \<le> 2 * A" using mA by (simp add: D_def)
  have d1n: "0 \<le> d1" using fl_nonneg[OF d1] le by simp
  then have g0n: "0 \<le> g0" using fl_nonneg[OF g0] by simp
  then have e0n: "0 \<le> e0" using fl_nonneg[OF e0] by simp
  have e1: "\<bar>d1 - D\<bar> \<le> D / 2 ^ 53 + eta"
    using fl_error_eta[OF d1 eta_def] D0 by (simp add: D_def)
  have e2: "\<bar>g0 - d1 / 254\<bar> \<le> d1 / 254 / 2 ^ 53 + eta"
    using fl_error_eta[OF g0 eta_def] d1n by simp
  have e3: "\<bar>e0 - g0\<bar> \<le> g0 / 2 ^ 53 + eta"
    using fl_error_eta[OF e0 eta_def] g0n by simp
  show gl: "1 / 2 ^ 41 \<le> g"
  proof (cases "\<bar>e0\<bar> \<le> dblEpsilon")
    case True
    then show ?thesis using g by simp
  next
    case False
    then have "4951760157141521 / 2 ^ 92 < e0" using e0n by (simp add: dblEpsilon_def)
    then have "1 / 2 ^ 41 \<le> g0" using e3 eta by simp
    then show ?thesis using g False by simp
  qed
  have A0: "0 \<le> A" using mA by linarith
  have uA: "A / 2 ^ 53 \<le> g / 256" using Ag by simp
  have etag: "eta \<le> g / 2 ^ 100" using gl eta(2) by simp
  show "g = g0 \<longrightarrow> \<bar>254 * g - (mx - mn)\<bar> \<le> g / 32"
  proof
    assume eq: "g = g0"
    have a1: "d1 \<le> D + D / 2 ^ 53 + eta" "D - D / 2 ^ 53 - eta \<le> d1" using e1 by linarith+
    have a2: "254 * g0 \<le> d1 + d1 / 2 ^ 53 + 254 * eta" "d1 - d1 / 2 ^ 53 - 254 * eta \<le> 254 * g0"
      using e2 by linarith+
    have a3: "D / 2 ^ 53 \<le> g0 / 128" using DA uA eq by simp
    have a4: "d1 / 2 ^ 53 \<le> g0 / 64" using a1(1) a3 etag eta(1) eq D0 by simp
    have "254 * g0 - D \<le> g0 / 32" using a1 a2 a3 a4 etag eta(1) eq by simp
    moreover have "D - 254 * g0 \<le> g0 / 32" using a1 a2 a3 a4 etag eta(1) eq by simp
    ultimately have "\<bar>254 * g0 - D\<bar> \<le> g0 / 32" by linarith
    then show "\<bar>254 * g - (mx - mn)\<bar> \<le> g / 32" using eq by (simp add: D_def)
  qed
  show "g \<noteq> g0 \<longrightarrow> g = 1 \<and> mx - mn \<le> 1 / 2 ^ 20"
  proof
    assume ne: "g \<noteq> g0"
    then have t: "\<bar>e0\<bar> \<le> dblEpsilon" and g1: "g = 1" using g by (auto split: if_splits)
    then have "e0 \<le> 4951760157141521 / 2 ^ 92" by (simp add: dblEpsilon_def)
    then have "D \<le> 1 / 2 ^ 20" using e1 e2 e3 D0 d1n g0n eta by simp
    then show "g = 1 \<and> mx - mn \<le> 1 / 2 ^ 20" using g1 by (simp add: D_def)
  qed
qed

lemma offset_facts:
  fixes mn mx A :: real
  assumes mA: "\<bar>mn\<bar> \<le> A" "\<bar>mx\<bar> \<le> A"
    and a: "fl (254 * mn) = Some a" and b: "fl (a - mx) = Some b" and off: "fl (b / 253) = Some off"
    and eta: "eta = 1 / 2 ^ 1075"
  shows "(254 * mn - mx) / 253 - (4 * A / 2 ^ 53 + 2 * eta) \<le> off"
    and "off \<le> (254 * mn - mx) / 253 + (4 * A / 2 ^ 53 + 2 * eta)"
proof -
  have eta0: "0 < eta" "eta \<le> 1" by (simp_all add: eta)
  have A0: "0 \<le> A" using mA by linarith
  have m254: "\<bar>254 * mn\<bar> \<le> 254 * A" using mA(1) by simp
  note ea = fl_bounds[OF a m254 eta]
  have ab: "\<bar>a - mx\<bar> \<le> 256 * A + eta"
  proof -
    have "254 * A / 2 ^ 53 \<le> A" using A0 by simp
    then show ?thesis using ea mA by linarith
  qed
  note eb = fl_bounds[OF b ab eta]
  have bb: "\<bar>b\<bar> \<le> 257 * A + 3 * eta"
  proof -
    have "(256 * A + eta) / 2 ^ 53 \<le> A + eta" using A0 eta0 by simp
    then show ?thesis using eb ab by linarith
  qed
  have bb': "\<bar>b / 253\<bar> \<le> (257 * A + 3 * eta) / 253" using bb by simp
  note eo = fl_bounds[OF off bb' eta]
  have k1: "254 * A / 2 ^ 53 / 253 + (256 * A + eta) / 2 ^ 53 / 253 + (257 * A + 3 * eta) / 253 / 2 ^ 53
        \<le> 4 * A / 2 ^ 53 + eta / 8"
    using A0 eta0 by (simp add: add_divide_distrib)
  have lo: "(254 * mn - mx) / 253 - (254 * A / 2 ^ 53 + eta) / 253 - ((256 * A + eta) / 2 ^ 53 + eta) / 253
        - ((257 * A + 3 * eta) / 253 / 2 ^ 53 + eta) \<le> off"
    using ea eb eo by (simp add: field_simps)
  have hi: "off \<le> (254 * mn - mx) / 253 + (254 * A / 2 ^ 53 + eta) / 253 + ((256 * A + eta) / 2 ^ 53 + eta) / 253
        + ((257 * A + 3 * eta) / 253 / 2 ^ 53 + eta)"
    using ea eb eo by (simp add: field_simps)
  show "(254 * mn - mx) / 253 - (4 * A / 2 ^ 53 + 2 * eta) \<le> off"
    using lo k1 eta0 by (simp add: field_simps)
  show "off \<le> (254 * mn - mx) / 253 + (4 * A / 2 ^ 53 + 2 * eta)"
    using hi k1 eta0 by (simp add: field_simps)
qed

lemma scaled_facts:
  fixes v off g :: real
  assumes gl: "1 / 2 ^ 41 \<le> g" and gu: "g \<le> 2 ^ 1001"
    and lo: "- g / 16 \<le> v - off" and hi: "v - off \<le> 2552 * g / 10"
  shows "\<exists>c h s q. fl (v - off) = Some c \<and> fl (0.5 * g) = Some h \<and> fl (c + h) = Some s
      \<and> fl (s / g) = Some q \<and> 0 \<le> q \<and> q < 256
      \<and> \<bar>v - (g * real_of_int \<lfloor>q\<rfloor> + off)\<bar> \<le> g"
proof -
  define eta :: real where "eta = 1 / 2 ^ 1075"
  define X where "X = v - off"
  have g0: "0 < g" using gl by (smt (verit) divide_pos_pos zero_less_power)
  have eta0: "0 < eta" by (simp add: eta_def)
  have etag: "eta \<le> g / 2 ^ 100"
  proof -
    have "eta \<le> 1 / 2 ^ 41 / 2 ^ 100" by (simp add: eta_def)
    also have "\<dots> \<le> g / 2 ^ 100" using gl by (intro divide_right_mono) simp_all
    finally show ?thesis .
  qed
  have big: "257 * g \<le> 2 ^ 1023"
  proof -
    have "257 * g \<le> 257 * 2 ^ 1001" using gu by simp
    also have "\<dots> \<le> (2::real) ^ 1023" by simp
    finally show ?thesis .
  qed
  have Xb: "\<bar>X\<bar> \<le> 256 * g" using lo hi g0 by (simp add: X_def)
  have "\<exists>c. fl X = Some c" using fl_exists[OF Xb] big g0 by simp
  then obtain c where c: "fl X = Some c" ..
  note ec = fl_bounds[OF c Xb eta_def]
  have hb: "\<bar>0.5 * g\<bar> \<le> g" using g0 by simp
  have "\<exists>h. fl (0.5 * g) = Some h" using fl_exists[OF hb] big g0 by simp
  then obtain h where h: "fl (0.5 * g) = Some h" ..
  note eh = fl_bounds[OF h hb eta_def]
  have k1: "256 * g / 2 ^ 53 + eta + (g / 2 ^ 53 + eta) \<le> g / 2 ^ 44" using etag g0 eta0 by simp
  have chb: "\<bar>c + h\<bar> \<le> 257 * g"
  proof -
    have "c + h \<le> X + g / 2 + g / 2 ^ 44" using ec(2) eh(2) k1 by simp
    moreover have "X + g / 2 - g / 2 ^ 44 \<le> c + h" using ec(1) eh(1) k1 by simp
    ultimately show ?thesis using lo hi g0 by (simp add: X_def)
  qed
  have "\<exists>s. fl (c + h) = Some s" using fl_exists[OF chb big] .
  then obtain s where s: "fl (c + h) = Some s" ..
  note es = fl_bounds[OF s chb eta_def]
  have k2: "257 * g / 2 ^ 53 + eta \<le> g / 2 ^ 44" using etag g0 eta0 by simp
  have s_hi: "s \<le> X + g / 2 + g / 2 ^ 43" using es(2) ec(2) eh(2) k1 k2 by simp
  have s_lo: "X + g / 2 - g / 2 ^ 43 \<le> s" using es(1) ec(1) eh(1) k1 k2 by simp
  have sb: "\<bar>s\<bar> \<le> 257 * g" using s_hi s_lo lo hi g0 by (simp add: X_def)
  have sgb: "\<bar>s / g\<bar> \<le> 257" by (rule abs_div_le[OF g0 sb])
  have "\<exists>q. fl (s / g) = Some q" using fl_exists[OF sgb] by simp
  then obtain q where q: "fl (s / g) = Some q" ..
  note eq = fl_bounds[OF q sgb eta_def]
  have k3: "257 / 2 ^ 53 + eta \<le> 1 / 2 ^ 44" by (simp add: eta_def)
  have q_hi: "q \<le> s / g + 1 / 2 ^ 44" using eq(2) k3 by linarith
  have q_lo: "s / g - 1 / 2 ^ 44 \<le> q" using eq(1) k3 by linarith
  have gq_hi: "g * q \<le> s + g / 2 ^ 44"
  proof -
    have "g * q \<le> g * (s / g + 1 / 2 ^ 44)" using q_hi g0 by (intro mult_left_mono) simp_all
    also have "\<dots> = s + g / 2 ^ 44" using g0 by (simp add: field_simps)
    finally show ?thesis .
  qed
  have gq_lo: "s - g / 2 ^ 44 \<le> g * q"
  proof -
    have "g * (s / g - 1 / 2 ^ 44) \<le> g * q" using q_lo g0 by (intro mult_left_mono) simp_all
    moreover have "g * (s / g - 1 / 2 ^ 44) = s - g / 2 ^ 44" using g0 by (simp add: field_simps)
    ultimately show ?thesis by simp
  qed
  have T_hi: "g * q \<le> X + g / 2 + g / 2 ^ 42" using gq_hi s_hi g0 by simp
  have T_lo: "X + g / 2 - g / 2 ^ 42 \<le> g * q" using gq_lo s_lo g0 by simp
  have qpos: "0 \<le> q"
  proof -
    have "0 < g * q" using T_lo lo g0 by (simp add: X_def)
    then show ?thesis using g0 by (simp add: zero_less_mult_iff)
  qed
  have q256: "q < 256"
  proof -
    have "g / 2 ^ 42 \<le> g / 10" using g0 by simp
    then have "g * q < g * 256" using T_hi hi g0 unfolding X_def by linarith
    then show ?thesis using g0 by simp
  qed
  define b where "b = \<lfloor>q\<rfloor>"
  have bq: "real_of_int b \<le> q" "q < real_of_int b + 1" by (simp_all add: b_def)
  have gb_lo: "g * real_of_int b \<le> g * q" using bq(1) g0 by simp
  have gb_hi: "g * q \<le> g * real_of_int b + g"
  proof -
    have "g * q \<le> g * (real_of_int b + 1)" using bq(2) g0 by (intro mult_left_mono) simp_all
    then show ?thesis by (simp add: algebra_simps)
  qed
  have k4: "g / 2 ^ 42 \<le> g / 10" using g0 by simp
  have "X - g * real_of_int b \<le> g" using T_lo gb_hi g0 k4 by linarith
  moreover have "- g \<le> X - g * real_of_int b" using T_hi gb_lo g0 k4 by linarith
  ultimately have "\<bar>X - g * real_of_int b\<bar> \<le> g" by linarith
  then have "\<bar>v - (g * real_of_int \<lfloor>q\<rfloor> + off)\<bar> \<le> g" by (simp add: X_def b_def algebra_simps)
  with c h s q qpos q256 show ?thesis unfolding X_def by blast
qed

lemma dblEpsilon_literal: "fl 0.000000000001 = Some dblEpsilon"
  unfolding dblEpsilon_def using fl_dyadicI[of 92 "0.000000000001" 4951760157141521] by simp

text \<open>
  C8 (as amended). Take a 2-D field whose values are at most \<open>2 ^ 1000\<close> in magnitude and
  whose gain, as the writer computes it in doubles, is at least \<open>2 ^ -45\<close> times the largest
  magnitude of the minimum and the maximum. Then the offset is a finite double, and for
  every cell \<open>v\<close> that is not NaN the operand \<^verbatim>\<open>(v - offset + 0.5*gain) / gain\<close> of the
  conversion is a double \<open>q\<close> in \<open>[0, 256)\<close>, the byte written is \<open>b = \<lfloor>q\<rfloor>\<close>, and the decoded
  value \<open>gain \<cdot> b + offset\<close> is within \<open>gain\<close> of \<open>v\<close>.
\<close>

theorem quantization_round_trip:
  assumes "j < length el" and "k < length (el ! j)" and "el ! j ! k = Some v"
    and "nanminmax2 el = (Some mn, Some mx)"
    and "fst (gainOffset el) = Some g"
    and "max \<bar>mn\<bar> \<bar>mx\<bar> \<le> 2 ^ 45 * g" and "max \<bar>mn\<bar> \<bar>mx\<bar> \<le> 2 ^ 1000"
  shows "\<exists>off q. gainOffset el = (Some g, Some off)
     \<and> scaled (Some g) (Some off) (Some v) = Some q \<and> 0 \<le> q \<and> q < 256
     \<and> snd (snd (quantizeField el nodataRaw)) ! j ! k = Inr (nat \<lfloor>q\<rfloor>)
     \<and> \<bar>v - (g * real (nat \<lfloor>q\<rfloor>) + off)\<bar> \<le> g"
proof -
  define A where "A = max \<bar>mn\<bar> \<bar>mx\<bar>"
  define eta :: real where "eta = 1 / 2 ^ 1075"
  have eta0: "0 < eta" "eta \<le> 1" by (simp_all add: eta_def)
  have mA: "\<bar>mn\<bar> \<le> A" "\<bar>mx\<bar> \<le> A" by (simp_all add: A_def)
  have A0: "0 \<le> A" using mA by linarith
  have Ag: "A \<le> 2 ^ 45 * g" and Ab: "A \<le> 2 ^ 1000" using assms(6,7) by (simp_all add: A_def)
  from nanminmax2_encloses[OF assms(1-3)] assms(4) have le: "mn \<le> v" "v \<le> mx" by auto
  have big: "1024 * A + 8 \<le> 2 ^ 1023"
  proof -
    have "1024 * A + 8 \<le> 1024 * 2 ^ 1000 + 8" using Ab by simp
    also have "\<dots> \<le> (2::real) ^ 1023" by simp
    finally show ?thesis .
  qed
  have b1: "\<bar>mx - mn\<bar> \<le> 2 * A" using mA by linarith
  have "\<exists>d1. fl (mx - mn) = Some d1" using fl_exists[OF b1] big A0 by simp
  then obtain d1 where d1: "fl (mx - mn) = Some d1" ..
  have "2 * A / 2 ^ 53 \<le> A" using A0 by simp
  then have "\<bar>d1\<bar> \<le> 3 * A + 1" using fl_bounds[OF d1 b1 eta_def] b1 eta0 by linarith
  then have b2: "\<bar>d1 / 254\<bar> \<le> 3 * A + 1" by simp
  have "\<exists>g0. fl (d1 / 254) = Some g0" using fl_exists[OF b2] big A0 by simp
  then obtain g0 where g0: "fl (d1 / 254) = Some g0" ..
  have "(3 * A + 1) / 2 ^ 53 \<le> A + 1" using A0 by simp
  then have b3: "\<bar>g0 - 0\<bar> \<le> 4 * A + 3" using fl_bounds[OF g0 b2 eta_def] b2 eta0 by linarith
  have "\<exists>e0. fl (g0 - 0) = Some e0" using fl_exists[OF b3] big A0 by simp
  then obtain e0 where e0: "fl (g0 - 0) = Some e0" ..
  have b4: "\<bar>254 * mn\<bar> \<le> 254 * A" using mA(1) by simp
  have "\<exists>a. fl (254 * mn) = Some a" using fl_exists[OF b4] big A0 by simp
  then obtain a where a: "fl (254 * mn) = Some a" ..
  have "254 * A / 2 ^ 53 \<le> A" using A0 by simp
  then have b5: "\<bar>a - mx\<bar> \<le> 256 * A + 1" using fl_bounds[OF a b4 eta_def] mA eta0 by linarith
  have "\<exists>b. fl (a - mx) = Some b" using fl_exists[OF b5] big A0 by simp
  then obtain b where b: "fl (a - mx) = Some b" ..
  have "(256 * A + 1) / 2 ^ 53 \<le> A + 1" using A0 by simp
  then have "\<bar>b\<bar> \<le> 257 * A + 3" using fl_bounds[OF b b5 eta_def] b5 eta0 by linarith
  then have b6: "\<bar>b / 253\<bar> \<le> 257 * A + 3" by simp
  have "\<exists>off. fl (b / 253) = Some off" using fl_exists[OF b6] big A0 by simp
  then obtain off where off: "fl (b / 253) = Some off" ..
  have go: "gainOffset el = (Some (if \<bar>e0\<bar> \<le> dblEpsilon then 1 else g0), Some off)"
    using not_allnan[OF assms(1-3)] assms(4) d1 g0 e0 a b off
    by (simp add: gainOffset_def Let_def fdiv_def fsub_def fmul_def eqDbl_def dabs_def)
  then have g: "g = (if \<bar>e0\<bar> \<le> dblEpsilon then 1 else g0)" using assms(5) by simp
  have go': "gainOffset el = (Some g, Some off)" using go g by simp
  have mle: "mn \<le> mx" using le by simp
  note gf = gain_facts[OF mle mA Ag d1 g0 e0 g]
  note olo = offset_facts(1)[OF mA a b off eta_def] and ohi = offset_facts(2)[OF mA a b off eta_def]
  have gpos: "0 < g" using gf(1) by (smt (verit) divide_pos_pos zero_less_power)
  have etag: "eta \<le> g / 2 ^ 100"
  proof -
    have "eta \<le> 1 / 2 ^ 41 / 2 ^ 100" by (simp add: eta_def)
    also have "\<dots> \<le> g / 2 ^ 100" using gf(1) by (intro divide_right_mono) simp_all
    finally show ?thesis .
  qed
  have dlt: "4 * A / 2 ^ 53 + 2 * eta \<le> g / 32" using Ag etag gpos by simp
  have split: "v - (254 * mn - mx) / 253 = (v - mn) + (mx - mn) / 253" by (simp add: field_simps)
  have rng: "- g / 16 \<le> v - off \<and> v - off \<le> 2552 * g / 10 \<and> g \<le> 2 ^ 1001"
  proof (cases "g = g0")
    case True
    then have D: "254 * g - (mx - mn) \<le> g / 32" "(mx - mn) - 254 * g \<le> g / 32"
      using gf(2) by linarith+
    have l1: "g \<le> (mx - mn) / 253" using D(1) gpos by simp
    have l2: "(mx - mn) + (mx - mn) / 253 \<le> 2551 * g / 10" using D(2) gpos by (simp add: field_simps)
    have "- g / 16 \<le> v - off" using ohi dlt split l1 le gpos by linarith
    moreover have "v - off \<le> 2552 * g / 10" using olo dlt split l2 le gpos by linarith
    moreover have "g \<le> 2 ^ 1001"
    proof -
      have "g \<le> mx - mn" using l1 gpos by simp
      also have "\<dots> \<le> 2 * A" using b1 by linarith
      also have "\<dots> \<le> 2 * 2 ^ 1000" using Ab by simp
      finally show ?thesis by simp
    qed
    ultimately show ?thesis by simp
  next
    case False
    then have g1: "g = 1" and D: "mx - mn \<le> 1 / 2 ^ 20" using gf(3) by simp_all
    have "mx - mn \<le> 1 / 2" using D by simp
    then have l2: "(mx - mn) + (mx - mn) / 253 \<le> 1" using mle by (simp add: field_simps)
    have x0: "0 \<le> v - (254 * mn - mx) / 253" unfolding split using le mle by simp
    have x1: "v - (254 * mn - mx) / 253 \<le> 1" unfolding split using l2 le by linarith
    have "- g / 16 \<le> v - off" using ohi dlt x0 unfolding g1 by linarith
    moreover have "v - off \<le> 2552 * g / 10" using olo dlt x1 unfolding g1 by linarith
    ultimately show ?thesis using g1 by simp
  qed
  from scaled_facts[OF gf(1)] rng obtain c h s q where
    c: "fl (v - off) = Some c" and h: "fl (0.5 * g) = Some h" and s: "fl (c + h) = Some s"
    and q: "fl (s / g) = Some q" and q0: "0 \<le> q" and q256: "q < 256"
    and bound: "\<bar>v - (g * real_of_int \<lfloor>q\<rfloor> + off)\<bar> \<le> g"
    by blast
  have sc: "scaled (Some g) (Some off) (Some v) = Some q"
    using c h s q gpos by (simp add: scaled_def fdiv_def fadd_def fsub_def fmul_def)
  have enc: "encode (Some g) (Some off) (Some v) = Inr (nat \<lfloor>q\<rfloor>)"
    using q0 q256 by (simp add: encode_def sc uchar_cast_def)
  have cell: "snd (snd (quantizeField el nodataRaw)) ! j ! k = Inr (nat \<lfloor>q\<rfloor>)"
    using assms(1-3) enc by (simp add: quantizeField_def go' isnan_def)
  have "real (nat \<lfloor>q\<rfloor>) = real_of_int \<lfloor>q\<rfloor>" using q0 by simp
  with bound have "\<bar>v - (g * real (nat \<lfloor>q\<rfloor>) + off)\<bar> \<le> g" by simp
  with go' sc q0 q256 cell show ?thesis by blast
qed

lemma fl_sample:
  "fl 64262 = Some 64262" "fl 253 = Some 253" "fl (- 64262) = Some (- 64262)"
  "fl (- 254) = Some (- 254)" "fl 506 = Some 506" "fl (253 / 2) = Some (253 / 2)"
  "fl (1265 / 2) = Some (1265 / 2)" "fl (5 / 2) = Some (5 / 2)"
  using fl_exact[of 64262 0] fl_exact[of 253 0] fl_exact[of "- 64262" 0] fl_exact[of "- 254" 0]
    fl_exact[of 506 0] fl_exact[of 253 1] fl_exact[of 1265 1] fl_exact[of 5 1]
  by simp_all

lemma sample_minmax: "nanminmax2 sampleField = (Some 0, Some 64262)"
  by (simp add: nanminmax2_def sampleField_def minmaxStep_def)

lemma sample_gainOffset: "gainOffset sampleField = (Some 253, Some (- 254))"
  by (simp add: gainOffset_def sample_minmax Let_def fdiv_def fsub_def fmul_def eqDbl_def dabs_def
      dblEpsilon_def fl_sample fl_small(1))
     (simp add: sampleField_def isallnan2_def isnan_def)

lemma sample_scaled: "scaled (Some 253) (Some (- 254)) (Some 252) = Some (5 / 2)"
  by (simp add: scaled_def fdiv_def fadd_def fsub_def fmul_def fl_sample)

theorem quantization_round_trip_witness:
  "(1::nat) < length sampleField \<and> (0::nat) < length (sampleField ! 1) \<and> sampleField ! 1 ! 0 = Some 252
   \<and> nanminmax2 sampleField = (Some 0, Some 64262)
   \<and> fst (gainOffset sampleField) = Some 253
   \<and> max \<bar>0\<bar> \<bar>64262\<bar> \<le> (2 ^ 45 * 253 :: real) \<and> max \<bar>0\<bar> \<bar>64262\<bar> \<le> (2 ^ 1000 :: real)
   \<and> gainOffset sampleField = (Some 253, Some (- 254))
   \<and> scaled (Some 253) (Some (- 254)) (Some 252) = Some (5 / 2)
   \<and> snd (snd (quantizeField sampleField 255)) ! 1 ! 0 = Inr 2
   \<and> \<bar>252 - (253 * real 2 + (- 254))\<bar> \<le> (253 :: real)"
proof -
  have h1: "(1::nat) < length sampleField" and h2: "(0::nat) < length (sampleField ! 1)"
    and h3: "sampleField ! 1 ! 0 = Some 252"
    by (simp_all add: sampleField_def)
  have h5: "fst (gainOffset sampleField) = Some 253" by (simp add: sample_gainOffset)
  have h6: "max \<bar>0\<bar> \<bar>64262\<bar> \<le> (2 ^ 45 * 253 :: real)" by simp
  have h7: "max \<bar>0\<bar> \<bar>64262\<bar> \<le> (2 ^ 1000 :: real)" by simp
  from quantization_round_trip [OF h1 h2 h3 sample_minmax h5 h6 h7, of 255] obtain off q where
    go: "gainOffset sampleField = (Some 253, Some off)"
    and sc: "scaled (Some 253) (Some off) (Some 252) = Some q"
    and cell: "snd (snd (quantizeField sampleField 255)) ! 1 ! 0 = Inr (nat \<lfloor>q\<rfloor>)"
    and bound: "\<bar>252 - (253 * real (nat \<lfloor>q\<rfloor>) + off)\<bar> \<le> 253"
    by blast
  have off: "off = - 254" using go sample_gainOffset by simp
  have q: "q = 5 / 2" using sc sample_scaled unfolding off by simp
  have fq: "nat \<lfloor>q\<rfloor> = 2" unfolding q by simp
  from h1 h2 h3 sample_minmax h5 h6 h7 sample_gainOffset sample_scaled cell bound
  show ?thesis unfolding off fq by simp
qed

text \<open>
  On the field of the two doubles nearest to \<open>166523.44779310244\<close> and \<open>166523.4477931082\<close>
  the gain is about \<^verbatim>\<open>2.27e-11\<close>, above \<^verbatim>\<open>dblEpsilon\<close>, and the rounding of \<^verbatim>\<open>254.0 * min\<close>
  and of the two operations after it leaves the offset two units in the last place of the
  minimum below it, which is more than two gains, where the exact offset is about one gain
  below. The operand of the conversion is \<open>257.07\<close> for the maximum, outside
  \<^verbatim>\<open>unsigned char\<close>, and no byte decodes to within the gain of the maximum: the largest
  one, 255, is more than one gain short.
\<close>

lemma narrow_gainOffset:
  "gainOffset narrowField = (Some (7021360048971324 / 2 ^ 88), Some (5721702098308305 / 2 ^ 35))"
proof -
  have s1: "fsub (Some narrowMax) (Some narrowMin) = Some (6966505673588736 / 2 ^ 80)"
    unfolding narrowMax_def narrowMin_def
    using fl_dyadicI[of 80 "5721702098308505 / 2 ^ 35 - 5721702098308307 / 2 ^ 35" 6966505673588736]
    by (simp add: fsub_def)
  have s2: "fdiv (Some (6966505673588736 / 2 ^ 80)) (Some 254) = Some (7021360048971324 / 2 ^ 88)"
    using fl_dyadicI[of 88 "6966505673588736 / 2 ^ 80 / 254" 7021360048971324]
    by (simp add: fdiv_def)
  have s3: "fsub (Some (7021360048971324 / 2 ^ 88)) (Some 0) = Some (7021360048971324 / 2 ^ 88)"
    using fl_dyadicI[of 88 "7021360048971324 / 2 ^ 88" 7021360048971324]
    by (simp add: fsub_def)
  have s3': "\<not> eqDbl (Some (7021360048971324 / 2 ^ 88)) (Some 0)"
    unfolding eqDbl_def s3 by (simp add: dabs_def dblEpsilon_def)
  have s4: "fmul (Some 254) (Some narrowMin) = Some (5677001300665273 / 2 ^ 27)"
    unfolding narrowMin_def
    using fl_dyadicI[of 27 "254 * (5721702098308307 / 2 ^ 35)" 5677001300665273]
    by (simp add: fmul_def)
  have s5: "fsub (Some (5677001300665273 / 2 ^ 27)) (Some narrowMax) = Some (5654650901843755 / 2 ^ 27)"
    unfolding narrowMax_def
    using fl_dyadicI[of 27 "5677001300665273 / 2 ^ 27 - 5721702098308505 / 2 ^ 35" 5654650901843755]
    by (simp add: fsub_def)
  have s6: "fdiv (Some (5654650901843755 / 2 ^ 27)) (Some 253) = Some (5721702098308305 / 2 ^ 35)"
    using fl_dyadicI[of 35 "5654650901843755 / 2 ^ 27 / 253" 5721702098308305]
    by (simp add: fdiv_def)
  have mm: "nanminmax2 narrowField = (Some narrowMin, Some narrowMax)"
    by (simp add: nanminmax2_def narrowField_def minmaxStep_def narrowMin_def narrowMax_def)
  have nn: "\<not> isallnan2 narrowField" by (simp add: narrowField_def isallnan2_def isnan_def)
  show ?thesis
    unfolding gainOffset_def Let_def mm by (simp only: nn s1 s2 s3' s4 s5 s6 if_True if_False not_False_eq_True split)
qed

lemma narrow_scaled:
  "scaled (Some (7021360048971324 / 2 ^ 88)) (Some (5721702098308305 / 2 ^ 35)) (Some narrowMin)
     = Some (6903244883368413 / 2 ^ 51)"
  "scaled (Some (7021360048971324 / 2 ^ 88)) (Some (5721702098308305 / 2 ^ 35)) (Some narrowMax)
     = Some (4522346855932980 / 2 ^ 44)"
proof -
  have h: "fmul (Some 0.5) (Some (7021360048971324 / 2 ^ 88)) = Some (7021360048971324 / 2 ^ 89)"
    using fl_dyadicI[of 89 "0.5 * (7021360048971324 / 2 ^ 88)" 7021360048971324]
    by (simp add: fmul_def)
  have c1: "fsub (Some narrowMin) (Some (5721702098308305 / 2 ^ 35)) = Some (4503599627370496 / 2 ^ 86)"
    unfolding narrowMin_def
    using fl_dyadicI[of 86 "5721702098308307 / 2 ^ 35 - 5721702098308305 / 2 ^ 35" 4503599627370496]
    by (simp add: fsub_def)
  have t1: "fadd (Some (4503599627370496 / 2 ^ 86)) (Some (7021360048971324 / 2 ^ 89))
      = Some (5381269633491912 / 2 ^ 86)"
    using fl_dyadic_tieI[of 86 "4503599627370496 / 2 ^ 86 + 7021360048971324 / 2 ^ 89" 5381269633491912]
    by (simp add: fadd_def)
  have q1: "fdiv (Some (5381269633491912 / 2 ^ 86)) (Some (7021360048971324 / 2 ^ 88))
      = Some (6903244883368413 / 2 ^ 51)"
    using fl_dyadicI[of 51 "5381269633491912 / 2 ^ 86 / (7021360048971324 / 2 ^ 88)" 6903244883368413]
    by (simp add: fdiv_def)
  have c2: "fsub (Some narrowMax) (Some (5721702098308305 / 2 ^ 35)) = Some (7036874417766400 / 2 ^ 80)"
    unfolding narrowMax_def
    using fl_dyadicI[of 80 "5721702098308505 / 2 ^ 35 - 5721702098308305 / 2 ^ 35" 7036874417766400]
    by (simp add: fsub_def)
  have t2: "fadd (Some (7036874417766400 / 2 ^ 80)) (Some (7021360048971324 / 2 ^ 89))
      = Some (7050588011612047 / 2 ^ 80)"
    using fl_dyadicI[of 80 "7036874417766400 / 2 ^ 80 + 7021360048971324 / 2 ^ 89" 7050588011612047]
    by (simp add: fadd_def)
  have q2: "fdiv (Some (7050588011612047 / 2 ^ 80)) (Some (7021360048971324 / 2 ^ 88))
      = Some (4522346855932980 / 2 ^ 44)"
    using fl_dyadicI[of 44 "7050588011612047 / 2 ^ 80 / (7021360048971324 / 2 ^ 88)" 4522346855932980]
    by (simp add: fdiv_def)
  show "scaled (Some (7021360048971324 / 2 ^ 88)) (Some (5721702098308305 / 2 ^ 35)) (Some narrowMin)
     = Some (6903244883368413 / 2 ^ 51)"
    by (simp only: scaled_def h c1 t1 q1)
  show "scaled (Some (7021360048971324 / 2 ^ 88)) (Some (5721702098308305 / 2 ^ 35)) (Some narrowMax)
     = Some (4522346855932980 / 2 ^ 44)"
    by (simp only: scaled_def h c2 t2 q2)
qed

theorem quantization_narrow_field_counterexample:
  "quantizeField narrowField 255
     = (Some (7021360048971324 / 2 ^ 88), Some (5721702098308305 / 2 ^ 35), [[Inr 3, Inl NotFinite]])
   \<and> scaled (Some (7021360048971324 / 2 ^ 88)) (Some (5721702098308305 / 2 ^ 35)) (Some narrowMax)
       = Some (4522346855932980 / 2 ^ 44)
   \<and> (257 :: real) < 4522346855932980 / 2 ^ 44
   \<and> 7021360048971324 / 2 ^ 88 < narrowMax - (7021360048971324 / 2 ^ 88 * 255 + 5721702098308305 / 2 ^ 35)"
proof -
  have e1: "encode (Some (7021360048971324 / 2 ^ 88)) (Some (5721702098308305 / 2 ^ 35)) (Some narrowMin) = Inr 3"
    unfolding encode_def narrow_scaled by (simp add: uchar_cast_def)
  have e2: "encode (Some (7021360048971324 / 2 ^ 88)) (Some (5721702098308305 / 2 ^ 35)) (Some narrowMax)
      = Inl NotFinite"
    unfolding encode_def narrow_scaled by (simp add: uchar_cast_def)
  have "quantizeField narrowField 255
     = (Some (7021360048971324 / 2 ^ 88), Some (5721702098308305 / 2 ^ 35),
        [[encode (Some (7021360048971324 / 2 ^ 88)) (Some (5721702098308305 / 2 ^ 35)) (Some narrowMin),
          encode (Some (7021360048971324 / 2 ^ 88)) (Some (5721702098308305 / 2 ^ 35)) (Some narrowMax)]])"
    unfolding quantizeField_def narrow_gainOffset Let_def
    by (simp add: narrowField_def isnan_def)
  then have "quantizeField narrowField 255
     = (Some (7021360048971324 / 2 ^ 88), Some (5721702098308305 / 2 ^ 35), [[Inr 3, Inl NotFinite]])"
    by (simp only: e1 e2)
  moreover have "(257 :: real) < 4522346855932980 / 2 ^ 44" by simp
  moreover have "7021360048971324 / 2 ^ 88
      < narrowMax - (7021360048971324 / 2 ^ 88 * 255 + 5721702098308305 / 2 ^ 35)"
    by (simp add: narrowMax_def)
  ultimately show ?thesis using narrow_scaled(2) by simp
qed


subsection \<open>Loop nests over the bins\<close>

lemma at3_put3:
  assumes "inb c i j k"
  shows "at3 (put3 c i j k v) a b e = (if a = i \<and> b = j \<and> e = k then v else at3 c a b e)"
  using assms
  by (cases "a = i"; cases "b = j"; cases "e = k")
     (simp_all add: at3_def put3_def inb_def nth_list_update)

lemma inb_put3 [simp]: "inb (put3 c i j k v) a b e = inb c a b e"
  by (cases "a = i"; cases "b = j"; cases "i < length c"; cases "j < length (c ! i)")
     (simp_all add: put3_def inb_def nth_list_update)

lemma inb_cube: "inb (cube x y z v) i j k = (i < x \<and> j < y \<and> k < z)"
  by (auto simp add: inb_def cube_def)

lemma at3_cube: "i < x \<Longrightarrow> j < y \<Longrightarrow> k < z \<Longrightarrow> at3 (cube x y z v) i j k = v"
  by (simp add: at3_def cube_def)

lemma fold_invariant:
  assumes "\<And>x s. x \<in> set xs \<Longrightarrow> Q s \<Longrightarrow> Q (g x s)" and "Q s"
  shows "Q (fold g xs s)"
  using assms by (induction xs arbitrary: s) simp_all

lemma sweep_invariant:
  assumes "\<And>i j k s. i < nat (nel m) \<Longrightarrow> j < nat (naz m ! i) \<Longrightarrow> k < nat (nr m ! i) \<Longrightarrow> Q s \<Longrightarrow> Q (body i j k s)"
    and "Q s"
  shows "Q (sweep m body s)"
  unfolding sweep_def
  by (intro fold_invariant[where Q = Q] assms(2)) (simp_all add: assms(1))

lemma fold_local:
  assumes step: "\<And>x s. x < n \<Longrightarrow> P s \<Longrightarrow>
        P (g x s) \<and> (\<forall>t. view (g x s) t = (if hit x t then F t (view s t) else view s t))"
    and uniq: "\<And>x y t. hit x t \<Longrightarrow> hit y t \<Longrightarrow> x = y"
    and "P s"
  shows "P (fold g [0..<n] s)
       \<and> (\<forall>t. view (fold g [0..<n] s) t = (if \<exists>x<n. hit x t then F t (view s t) else view s t))"
  using step
proof (induction n)
  case 0
  then show ?case using assms(3) by simp
next
  case (Suc n)
  let ?s = "fold g [0..<n] s"
  have ih: "P ?s" "\<And>t. view ?s t = (if \<exists>x<n. hit x t then F t (view s t) else view s t)"
    using Suc.IH Suc.prems by simp_all
  have st: "P (g n ?s)" "\<And>t. view (g n ?s) t = (if hit n t then F t (view ?s t) else view ?s t)"
    using Suc.prems[of n ?s] ih(1) by simp_all
  have "view (g n ?s) t = (if \<exists>x<Suc n. hit x t then F t (view s t) else view s t)" for t
  proof (cases "hit n t")
    case True
    then have "\<not> (\<exists>x<n. hit x t)" using uniq by blast
    then show ?thesis using True st(2) ih(2) by auto
  next
    case False
    then have "(\<exists>x<Suc n. hit x t) = (\<exists>x<n. hit x t)" using less_Suc_eq by auto
    then show ?thesis using False st(2) ih(2) by simp
  qed
  then show ?case using st(1) by simp
qed

lemma sweep_cell:
  assumes step: "\<And>i j k s. i < nat (nel m) \<Longrightarrow> j < nat (naz m ! i) \<Longrightarrow> k < nat (nr m ! i) \<Longrightarrow> P s \<Longrightarrow>
        P (body i j k s) \<and> (\<forall>t. view (body i j k s) t = (if t = (i, j, k) then F t (view s t) else view s t))"
    and "P s"
  shows "P (sweep m body s)
       \<and> (\<forall>a b c. view (sweep m body s) (a, b, c)
            = (if a < nat (nel m) \<and> b < nat (naz m ! a) \<and> c < nat (nr m ! a)
               then F (a, b, c) (view s (a, b, c)) else view s (a, b, c)))"
proof -
  have kloop: "P (fold (body i j) [0..<nat (nr m ! i)] s')
       \<and> (\<forall>t. view (fold (body i j) [0..<nat (nr m ! i)] s') t
            = (if \<exists>k<nat (nr m ! i). t = (i, j, k) then F t (view s' t) else view s' t))"
    if "i < nat (nel m)" "j < nat (naz m ! i)" "P s'" for i j s'
    by (rule fold_local[where hit = "\<lambda>k t. t = (i, j, k)"]) (use that step in auto)
  have jloop: "P (fold (\<lambda>j. fold (body i j) [0..<nat (nr m ! i)]) [0..<nat (naz m ! i)] s')
       \<and> (\<forall>t. view (fold (\<lambda>j. fold (body i j) [0..<nat (nr m ! i)]) [0..<nat (naz m ! i)] s') t
            = (if \<exists>j<nat (naz m ! i). \<exists>k<nat (nr m ! i). t = (i, j, k) then F t (view s' t) else view s' t))"
    if "i < nat (nel m)" "P s'" for i s'
    by (rule fold_local[where hit = "\<lambda>j t. \<exists>k<nat (nr m ! i). t = (i, j, k)"]) (use that kloop in auto)
  have iloop: "P (sweep m body s)
       \<and> (\<forall>t. view (sweep m body s) t
            = (if \<exists>i<nat (nel m). \<exists>j<nat (naz m ! i). \<exists>k<nat (nr m ! i). t = (i, j, k)
               then F t (view s t) else view s t))"
    unfolding sweep_def
    by (rule fold_local[where hit = "\<lambda>i t. \<exists>j<nat (naz m ! i). \<exists>k<nat (nr m ! i). t = (i, j, k)"])
       (use assms(2) jloop in auto)
  then show ?thesis by auto
qed


subsection \<open>Dealiaser\<close>

lemma nyquistStep_cell:
  assumes "inb (fst s) i j k" and "inb (snd s) i j k"
  shows "cellPair (nyquistStep d n i j k s) t
       = (if t = (i, j, k) then pick d t n (cellPair s t) else cellPair s t)"
  using assms
  by (cases s; cases t)
     (auto simp add: cellPair_def nyquistStep_def pick_def Let_def at3_put3 split: option.splits)

lemma nyquistStep_inb:
  "inb (fst (nyquistStep d n i j k s)) a b c = inb (fst s) a b c
   \<and> inb (snd (nyquistStep d n i j k s)) a b c = inb (snd s) a b c"
  by (cases s) (auto simp add: nyquistStep_def Let_def split: option.splits)

lemma multipliers_fold:
  assumes "\<forall>a b c. isBin (vrad d) a b c \<longrightarrow> inb (fst s) a b c \<and> inb (snd s) a b c"
  shows "(\<forall>a b c. isBin (vrad d) a b c \<longrightarrow>
            inb (fst (fold (\<lambda>n. sweep (vrad d) (nyquistStep d n)) nl s)) a b c
          \<and> inb (snd (fold (\<lambda>n. sweep (vrad d) (nyquistStep d n)) nl s)) a b c)
       \<and> (\<forall>a b c. cellPair (fold (\<lambda>n. sweep (vrad d) (nyquistStep d n)) nl s) (a, b, c)
            = (if isBin (vrad d) a b c then fold (pick d (a, b, c)) nl (cellPair s (a, b, c))
               else cellPair s (a, b, c)))"
  using assms
proof (induction nl arbitrary: s)
  case Nil
  then show ?case by simp
next
  case (Cons n nl)
  let ?P = "\<lambda>s :: minimum list list list \<times> int list list list.
      \<forall>a b c. isBin (vrad d) a b c \<longrightarrow> inb (fst s) a b c \<and> inb (snd s) a b c"
  let ?s1 = "sweep (vrad d) (nyquistStep d n) s"
  have sw: "?P ?s1
       \<and> (\<forall>a b c. cellPair ?s1 (a, b, c)
            = (if a < nat (nel (vrad d)) \<and> b < nat (naz (vrad d) ! a) \<and> c < nat (nr (vrad d) ! a)
               then pick d (a, b, c) n (cellPair s (a, b, c)) else cellPair s (a, b, c)))"
  proof (rule sweep_cell[where P = ?P and view = cellPair and F = "\<lambda>t. pick d t n"])
    show "?P s" by (rule Cons.prems)
  next
    fix i j k and s' :: "minimum list list list \<times> int list list list"
    assume b: "i < nat (nel (vrad d))" "j < nat (naz (vrad d) ! i)" "k < nat (nr (vrad d) ! i)"
      and p: "?P s'"
    have ib: "inb (fst s') i j k" "inb (snd s') i j k" using b p by (simp_all add: isBin_def)
    show "?P (nyquistStep d n i j k s')
       \<and> (\<forall>t. cellPair (nyquistStep d n i j k s') t
              = (if t = (i, j, k) then pick d t n (cellPair s' t) else cellPair s' t))"
      using p nyquistStep_cell[OF ib] by (simp add: nyquistStep_inb)
  qed
  then have p1: "?P ?s1" by blast
  from Cons.IH[OF p1] sw show ?case by (simp add: isBin_def)
qed

lemma multipliers_cell:
  assumes "cube_ok (vrad d)" and "isBin (vrad d) a b c"
  shows "cellPair (nyquistMultipliers N d) (a, b, c) = fold (pick d (a, b, c)) [- N..N] (Infinity, iNaN)"
    and "inb (snd (nyquistMultipliers N d)) a b c"
proof -
  let ?x = "nat (nel (vrad d))" and ?y = "nat (nazMax (vrad d))" and ?z = "nat (nrMax (vrad d))"
  let ?s0 = "(cube ?x ?y ?z Infinity, cube ?x ?y ?z iNaN)"
  have bound: "a' < ?x \<and> b' < ?y \<and> c' < ?z" if "isBin (vrad d) a' b' c'" for a' b' c'
    using that assms(1) by (fastforce simp add: isBin_def cube_ok_def)
  have p0: "\<forall>a b c. isBin (vrad d) a b c \<longrightarrow> inb (fst ?s0) a b c \<and> inb (snd ?s0) a b c"
    using bound by (simp add: inb_cube)
  have c0: "cellPair ?s0 (a, b, c) = (Infinity, iNaN)"
    using bound[OF assms(2)] by (simp add: cellPair_def at3_cube)
  from multipliers_fold[OF p0, of "[- N..N]"] assms(2) c0
  show "cellPair (nyquistMultipliers N d) (a, b, c) = fold (pick d (a, b, c)) [- N..N] (Infinity, iNaN)"
    and "inb (snd (nyquistMultipliers N d)) a b c"
    by (simp_all add: nyquistMultipliers_def)
qed


lemma dealiasStep_cell:
  assumes "inb dv i j k"
  shows "at3 (dealiasStep d dl ns i j k dv) a b c
       = (if (a, b, c) = (i, j, k)
          then (if \<not> (isnan (at3 (meas (vrad d)) a b c) \<or> isnan_int (at3 ns a b c) \<or> isnan (at3 (Ds dl) a b c))
                then dadd (at3 (meas (vrad d)) a b c) (dmul (dmul (Some 2) (dbl (at3 ns a b c))) (vnys (vrad d) ! a))
                else at3 dv a b c)
          else at3 dv a b c)"
  using assms by (auto simp add: dealiasStep_def Let_def at3_put3)

lemma dealiasStep_inb: "inb (dealiasStep d dl ns i j k dv) a b c = inb dv a b c"
  by (simp add: dealiasStep_def Let_def)

lemma dealias_cell:
  assumes "cube_ok (vrad d)" and "isBin (vrad d) a b c" and "nyquistMax st dl = Inr N"
  shows "\<exists>d'. dealias st dl d = Inr d'
     \<and> at3 (dvrads d') a b c
        = (if \<not> (isnan (at3 (meas (vrad d)) a b c)
                 \<or> isnan_int (at3 (snd (nyquistMultipliers N d)) a b c)
                 \<or> isnan (at3 (Ds dl) a b c))
           then dadd (at3 (meas (vrad d)) a b c)
                  (dmul (dmul (Some 2) (dbl (at3 (snd (nyquistMultipliers N d)) a b c))) (vnys (vrad d) ! a))
           else dNaN)"
proof -
  let ?x = "nat (nel (vrad d))" and ?y = "nat (nazMax (vrad d))" and ?z = "nat (nrMax (vrad d))"
  let ?ns = "snd (nyquistMultipliers N d)"
  let ?dv0 = "cube ?x ?y ?z dNaN"
  let ?P = "\<lambda>dv :: double list list list. \<forall>a b c. isBin (vrad d) a b c \<longrightarrow> inb dv a b c"
  let ?F = "\<lambda>t c0. case t of (a, b, c) \<Rightarrow>
        (if \<not> (isnan (at3 (meas (vrad d)) a b c) \<or> isnan_int (at3 ?ns a b c) \<or> isnan (at3 (Ds dl) a b c))
         then dadd (at3 (meas (vrad d)) a b c) (dmul (dmul (Some 2) (dbl (at3 ?ns a b c))) (vnys (vrad d) ! a))
         else c0)"
  have bound: "a' < ?x \<and> b' < ?y \<and> c' < ?z" if "isBin (vrad d) a' b' c'" for a' b' c'
    using that assms(1) by (fastforce simp add: isBin_def cube_ok_def)
  have p0: "?P ?dv0" using bound by (simp add: inb_cube)
  have sw: "?P (sweep (vrad d) (dealiasStep d dl ?ns) ?dv0)
       \<and> (\<forall>a b c. (\<lambda>dv t. case t of (a, b, c) \<Rightarrow> at3 dv a b c) (sweep (vrad d) (dealiasStep d dl ?ns) ?dv0) (a, b, c)
            = (if a < nat (nel (vrad d)) \<and> b < nat (naz (vrad d) ! a) \<and> c < nat (nr (vrad d) ! a)
               then ?F (a, b, c) ((\<lambda>dv t. case t of (a, b, c) \<Rightarrow> at3 dv a b c) ?dv0 (a, b, c))
               else (\<lambda>dv t. case t of (a, b, c) \<Rightarrow> at3 dv a b c) ?dv0 (a, b, c)))"
  proof (rule sweep_cell[where P = ?P and F = ?F])
    show "?P ?dv0" by (rule p0)
  next
    fix i j k and dv :: "double list list list"
    assume b: "i < nat (nel (vrad d))" "j < nat (naz (vrad d) ! i)" "k < nat (nr (vrad d) ! i)"
      and p: "?P dv"
    have ib: "inb dv i j k" using b p by (simp add: isBin_def)
    show "?P (dealiasStep d dl ?ns i j k dv)
       \<and> (\<forall>t. (case t of (a, b, c) \<Rightarrow> at3 (dealiasStep d dl ?ns i j k dv) a b c)
              = (if t = (i, j, k) then ?F t (case t of (a, b, c) \<Rightarrow> at3 dv a b c)
                 else (case t of (a, b, c) \<Rightarrow> at3 dv a b c)))"
      using p dealiasStep_cell[OF ib] by (auto simp add: dealiasStep_inb)
  qed
  have cell: "at3 (sweep (vrad d) (dealiasStep d dl ?ns) ?dv0) a b c = ?F (a, b, c) dNaN"
    using sw assms(2) bound[OF assms(2)] by (simp add: isBin_def at3_cube)
  have "dealias st dl d = Inr (d\<lparr> dvrads := sweep (vrad d) (dealiasStep d dl ?ns) ?dv0 \<rparr>)"
    using assms(3) by (simp add: dealias_def Let_def split_beta)
  then show ?thesis using cell by simp
qed

lemma pick_missing:
  assumes "isnan (at3 (wModels d) i j k) \<or> isnan (at3 (meas (vrad d)) i j k)"
  shows "fold (pick d (i, j, k)) nl s = s"
  using assms by (induction nl arbitrary: s) (auto simp add: pick_def)

lemma pick_member:
  "snd (fold (pick d t) nl (mn, k0)) = k0 \<or> snd (fold (pick d t) nl (mn, k0)) \<in> set nl"
proof (induction nl arbitrary: mn k0)
  case Nil
  then show ?case by simp
next
  case (Cons n nl)
  obtain mn1 k1 where p: "pick d t n (mn, k0) = (mn1, k1)" by (cases "pick d t n (mn, k0)")
  have "k1 = k0 \<or> k1 = n"
    using p by (cases t) (auto simp add: pick_def split: if_splits option.splits)
  then show ?case using Cons.IH[of mn1 k1] p by auto
qed

lemma pick_defined:
  assumes "at3 (wModels d) i j k = Some w" and "at3 (meas (vrad d)) i j k = Some m"
  shows "pick d (i, j, k) n (mn, k0)
       = (case misfit (Some m) (vnys (vrad d) ! i) n (Some w) of
            None \<Rightarrow> (mn, k0)
          | Some c \<Rightarrow> if lessMin c mn then (Least c, n) else (mn, k0))"
  using assms by (simp add: pick_def isnan_def)

lemma pick_argmin:
  assumes "at3 (wModels d) i j k = Some w" and "at3 (meas (vrad d)) i j k = Some m"
  defines "mu \<equiv> \<lambda>n. misfit (Some m) (vnys (vrad d) ! i) n (Some w)"
  shows "sorted nl \<Longrightarrow> distinct nl \<Longrightarrow>
     ((\<forall>n\<in>set nl. mu n = None) \<and> fold (pick d (i, j, k)) nl (Infinity, k0) = (Infinity, k0))
     \<or> (\<exists>k1 c. fold (pick d (i, j, k)) nl (Infinity, k0) = (Least c, k1)
          \<and> k1 \<in> set nl \<and> mu k1 = Some c
          \<and> (\<forall>n\<in>set nl. \<forall>c'. mu n = Some c' \<longrightarrow> c \<le> c')
          \<and> (\<forall>n\<in>set nl. mu n = Some c \<longrightarrow> k1 \<le> n))"
proof (induction nl rule: rev_induct)
  case Nil
  then show ?case by simp
next
  case (snoc x xs)
  have srt: "sorted xs" "distinct xs" and lt: "\<forall>n\<in>set xs. n < x"
    using snoc.prems by (auto simp add: sorted_append less_le)
  have step: "fold (pick d (i, j, k)) (xs @ [x]) (Infinity, k0)
      = (case mu x of
           None \<Rightarrow> fold (pick d (i, j, k)) xs (Infinity, k0)
         | Some c \<Rightarrow> if lessMin c (fst (fold (pick d (i, j, k)) xs (Infinity, k0))) then (Least c, x)
                     else fold (pick d (i, j, k)) xs (Infinity, k0))"
    by (cases "fold (pick d (i, j, k)) xs (Infinity, k0)")
       (simp add: pick_defined[OF assms(1,2)] mu_def split: option.splits)
  from snoc.IH[OF srt] show ?case
  proof
    assume none: "(\<forall>n\<in>set xs. mu n = None) \<and> fold (pick d (i, j, k)) xs (Infinity, k0) = (Infinity, k0)"
    show ?thesis
    proof (cases "mu x")
      case None
      then show ?thesis using none step by simp
    next
      case (Some c)
      then have "fold (pick d (i, j, k)) (xs @ [x]) (Infinity, k0) = (Least c, x)"
        using none step by (simp add: lessMin_def)
      moreover have "\<forall>n\<in>set (xs @ [x]). \<forall>c'. mu n = Some c' \<longrightarrow> c \<le> c'" using none Some by auto
      moreover have "\<forall>n\<in>set (xs @ [x]). mu n = Some c \<longrightarrow> x \<le> n" using none by auto
      ultimately show ?thesis using Some by auto
    qed
  next
    assume "\<exists>k1 c. fold (pick d (i, j, k)) xs (Infinity, k0) = (Least c, k1)
          \<and> k1 \<in> set xs \<and> mu k1 = Some c
          \<and> (\<forall>n\<in>set xs. \<forall>c'. mu n = Some c' \<longrightarrow> c \<le> c')
          \<and> (\<forall>n\<in>set xs. mu n = Some c \<longrightarrow> k1 \<le> n)"
    then obtain k1 c where
      f: "fold (pick d (i, j, k)) xs (Infinity, k0) = (Least c, k1)"
      and mem: "k1 \<in> set xs" and at: "mu k1 = Some c"
      and mn: "\<forall>n\<in>set xs. \<forall>c'. mu n = Some c' \<longrightarrow> c \<le> c'"
      and tie: "\<forall>n\<in>set xs. mu n = Some c \<longrightarrow> k1 \<le> n"
      by blast
    show ?thesis
    proof (cases "mu x")
      case None
      then have "fold (pick d (i, j, k)) (xs @ [x]) (Infinity, k0) = (Least c, k1)"
        using f step by simp
      moreover have "\<forall>n\<in>set (xs @ [x]). \<forall>c'. mu n = Some c' \<longrightarrow> c \<le> c'" using mn None by auto
      moreover have "\<forall>n\<in>set (xs @ [x]). mu n = Some c \<longrightarrow> k1 \<le> n" using tie None by auto
      ultimately show ?thesis using mem at by auto
    next
      case (Some cx)
      show ?thesis
      proof (cases "cx < c")
        case True
        then have "fold (pick d (i, j, k)) (xs @ [x]) (Infinity, k0) = (Least cx, x)"
          using f step Some by (simp add: lessMin_def)
        moreover have "\<forall>n\<in>set (xs @ [x]). \<forall>c'. mu n = Some c' \<longrightarrow> cx \<le> c'"
          using True mn Some by fastforce
        moreover have "\<forall>n\<in>set (xs @ [x]). mu n = Some cx \<longrightarrow> x \<le> n"
          using True mn by fastforce
        ultimately show ?thesis using Some by auto
      next
        case False
        then have "fold (pick d (i, j, k)) (xs @ [x]) (Infinity, k0) = (Least c, k1)"
          using f step Some by (simp add: lessMin_def)
        moreover have "\<forall>n\<in>set (xs @ [x]). \<forall>c'. mu n = Some c' \<longrightarrow> c \<le> c'"
          using False mn Some by auto
        moreover have "\<forall>n\<in>set (xs @ [x]). mu n = Some c \<longrightarrow> k1 \<le> n"
          using tie lt mem by fastforce
        ultimately show ?thesis using mem at by auto
      qed
    qed
  qed
qed


lemma misfit_error:
  fixes m V w :: real
  assumes "misfit (Some m) (Some V) n (Some w) = Some c"
  shows "\<bar>c - \<bar>m + 2 * V * real_of_int n - w\<bar>\<bar>
       \<le> (\<bar>m\<bar> + 2 * \<bar>V\<bar> * \<bar>real_of_int n\<bar> + \<bar>w\<bar>) / 2 ^ 49 + (\<bar>real_of_int n\<bar> + 1) / 2 ^ 1072"
proof -
  define eta :: real where "eta = 1 / 2 ^ 1075"
  define N where "N = \<bar>real_of_int n\<bar>"
  define P where "P = \<bar>V\<bar> * N"
  define Q where "Q = N * eta"
  have eta0: "0 < eta" by (simp add: eta_def)
  have N0: "0 \<le> N" by (simp add: N_def)
  have P0: "0 \<le> P" using N0 by (simp add: P_def)
  have Q0: "0 \<le> Q" using N0 eta0 by (simp add: Q_def)
  from assms obtain r1 r2 r3 r4 where
    r1: "fl (2 * V) = Some r1" and r2: "fl (r1 * real_of_int n) = Some r2"
    and r3: "fl (m + r2) = Some r3" and r4: "fl (r3 - w) = Some r4" and c: "c = \<bar>r4\<bar>"
    by (auto simp add: misfit_def fmul_def fadd_def fsub_def dabs_def dbl_def split: option.splits)
  have b1: "\<bar>2 * V\<bar> \<le> 2 * \<bar>V\<bar>" by simp
  note e1 = fl_bounds[OF r1 b1 eta_def]
  have d1: "\<bar>r1 - 2 * V\<bar> \<le> 2 * \<bar>V\<bar> / 2 ^ 53 + eta" using e1 by linarith
  have d2: "\<bar>r1 * real_of_int n - 2 * V * real_of_int n\<bar> \<le> 2 * P / 2 ^ 53 + Q"
  proof -
    have "\<bar>r1 * real_of_int n - 2 * V * real_of_int n\<bar> = N * \<bar>r1 - 2 * V\<bar>"
      by (simp add: N_def abs_mult[symmetric] algebra_simps)
    also have "\<dots> \<le> N * (2 * \<bar>V\<bar> / 2 ^ 53 + eta)" using d1 N0 by (rule mult_left_mono)
    also have "\<dots> = 2 * P / 2 ^ 53 + Q" by (simp add: P_def Q_def algebra_simps)
    finally show ?thesis .
  qed
  have x2: "\<bar>2 * V * real_of_int n\<bar> = 2 * P" by (simp add: P_def N_def abs_mult)
  have k2: "2 * P / 2 ^ 53 \<le> P" using P0 by simp
  have b2: "\<bar>r1 * real_of_int n\<bar> \<le> 3 * P + Q" using d2 x2 k2 by linarith
  note e2 = fl_bounds[OF r2 b2 eta_def]
  have k3: "(3 * P + Q) / 2 ^ 53 \<le> 3 * P / 2 ^ 53 + Q" using Q0 by (simp add: add_divide_distrib)
  have d3: "\<bar>r2 - 2 * V * real_of_int n\<bar> \<le> 5 * P / 2 ^ 53 + 2 * Q + eta"
    using e2 d2 k3 by linarith
  have k4: "5 * P / 2 ^ 53 \<le> P" using P0 by simp
  have b3: "\<bar>m + r2\<bar> \<le> \<bar>m\<bar> + 3 * P + 2 * Q + eta" using d3 x2 k4 by linarith
  note e3 = fl_bounds[OF r3 b3 eta_def]
  have k5: "(\<bar>m\<bar> + 3 * P + 2 * Q + eta) / 2 ^ 53 \<le> \<bar>m\<bar> / 2 ^ 53 + 3 * P / 2 ^ 53 + Q + eta"
    using Q0 eta0 by (simp add: add_divide_distrib)
  have d4: "\<bar>r3 - (m + 2 * V * real_of_int n)\<bar> \<le> \<bar>m\<bar> / 2 ^ 53 + 8 * P / 2 ^ 53 + 3 * Q + 3 * eta"
    using e3 d3 k5 by linarith
  have k6: "\<bar>m\<bar> / 2 ^ 53 + 8 * P / 2 ^ 53 \<le> \<bar>m\<bar> + P" using P0 by simp
  have b4: "\<bar>r3 - w\<bar> \<le> 2 * \<bar>m\<bar> + 3 * P + \<bar>w\<bar> + 3 * Q + 3 * eta" using d4 x2 k6 by linarith
  note e4 = fl_bounds[OF r4 b4 eta_def]
  have k7: "(2 * \<bar>m\<bar> + 3 * P + \<bar>w\<bar> + 3 * Q + 3 * eta) / 2 ^ 53
        \<le> 2 * \<bar>m\<bar> / 2 ^ 53 + 3 * P / 2 ^ 53 + \<bar>w\<bar> / 2 ^ 53 + Q + eta"
    using Q0 eta0 by (simp add: add_divide_distrib)
  have d5: "\<bar>r4 - (m + 2 * V * real_of_int n - w)\<bar>
        \<le> 3 * \<bar>m\<bar> / 2 ^ 53 + 11 * P / 2 ^ 53 + \<bar>w\<bar> / 2 ^ 53 + 4 * Q + 5 * eta"
    using e4 d4 k7 by linarith
  have k8: "3 * \<bar>m\<bar> / 2 ^ 53 + 11 * P / 2 ^ 53 + \<bar>w\<bar> / 2 ^ 53 \<le> (\<bar>m\<bar> + 2 * P + \<bar>w\<bar>) / 2 ^ 49"
    using P0 by (simp add: add_divide_distrib)
  have k9: "4 * Q + 5 * eta \<le> (N + 1) / 2 ^ 1072"
  proof -
    have "4 * Q + 5 * eta \<le> 8 * (N + 1) * eta" using N0 eta0 by (simp add: Q_def algebra_simps)
    also have "\<dots> = (N + 1) / 2 ^ 1072" by (simp add: eta_def)
    finally show ?thesis .
  qed
  have "\<bar>\<bar>r4\<bar> - \<bar>m + 2 * V * real_of_int n - w\<bar>\<bar> \<le> \<bar>r4 - (m + 2 * V * real_of_int n - w)\<bar>"
    by (rule abs_triangle_ineq3)
  then have "\<bar>c - \<bar>m + 2 * V * real_of_int n - w\<bar>\<bar> \<le> (\<bar>m\<bar> + 2 * P + \<bar>w\<bar>) / 2 ^ 49 + (N + 1) / 2 ^ 1072"
    using d5 k8 k9 unfolding c by linarith
  moreover have "2 * P = 2 * \<bar>V\<bar> * \<bar>real_of_int n\<bar>" by (simp add: P_def N_def)
  ultimately show ?thesis unfolding N_def by (simp only:)
qed

lemma misfit_error_upto:
  fixes m V w :: real
  assumes "misfit (Some m) (Some V) n (Some w) = Some c" and "- N \<le> n" and "n \<le> N"
  shows "\<bar>c - \<bar>m + 2 * V * real_of_int n - w\<bar>\<bar>
       \<le> (\<bar>m\<bar> + 2 * \<bar>V\<bar> * real_of_int N + \<bar>w\<bar>) / 2 ^ 49 + (real_of_int N + 1) / 2 ^ 1072"
proof -
  have n: "\<bar>real_of_int n\<bar> \<le> real_of_int N" using assms(2,3) by linarith
  have "2 * \<bar>V\<bar> * \<bar>real_of_int n\<bar> \<le> 2 * \<bar>V\<bar> * real_of_int N"
    using n by (intro mult_left_mono) simp_all
  then have "(\<bar>m\<bar> + 2 * \<bar>V\<bar> * \<bar>real_of_int n\<bar> + \<bar>w\<bar>) / 2 ^ 49
      \<le> (\<bar>m\<bar> + 2 * \<bar>V\<bar> * real_of_int N + \<bar>w\<bar>) / 2 ^ 49"
    by (intro divide_right_mono) simp_all
  moreover have "(\<bar>real_of_int n\<bar> + 1) / 2 ^ 1072 \<le> (real_of_int N + 1) / 2 ^ 1072"
    using n by (intro divide_right_mono) simp_all
  ultimately show ?thesis using misfit_error[OF assms(1)] by linarith
qed

lemma tie_facts:
  "cube_ok (vrad tieVolume)" "isBin (vrad tieVolume) 0 0 0"
  "nyquistMax tieSettings tieDealiaser = Inr 1"
  "at3 (wModels tieVolume) 0 0 0 = Some (- 10)" "at3 (meas (vrad tieVolume)) 0 0 0 = Some 0"
  "vnys (vrad tieVolume) ! 0 = Some 10" "\<not> isnan (at3 (Ds tieDealiaser) 0 0 0)"
  by (simp_all add: cube_ok_def isBin_def tieVolume_def tieSettings_def tieDealiaser_def
      emptyMeasurement_def nyquistMax_def int_cast_def at3_def isnan_def)

lemma tie_misfit:
  "misfit (Some 0) (Some 10) (- 1) (Some (- 10)) = Some 10"
  "misfit (Some 0) (Some 10) 0 (Some (- 10)) = Some 10"
  "misfit (Some 0) (Some 10) 1 (Some (- 10)) = Some 30"
  by (simp_all add: misfit_def fmul_def fadd_def fsub_def dabs_def dbl_def fl_small)

lemma tie_multiplier: "at3 (snd (nyquistMultipliers 1 tieVolume)) 0 0 0 = - 1"
proof -
  have u: "[- 1..1::int] = [- 1, 0, 1]" by (simp add: upto.simps)
  have "cellPair (nyquistMultipliers 1 tieVolume) (0, 0, 0) = fold (pick tieVolume (0, 0, 0)) [- 1..1] (Infinity, iNaN)"
    by (rule multipliers_cell(1)[OF tie_facts(1,2)])
  also have "\<dots> = (Least 10, - 1)"
    unfolding u by (simp add: pick_defined[OF tie_facts(4,5)] tie_facts(6) tie_misfit lessMin_def)
  finally show ?thesis by (simp add: cellPair_def)
qed

lemma tie_dvrads:
  "\<exists>d'. dealias tieSettings tieDealiaser tieVolume = Inr d' \<and> at3 (dvrads d') 0 0 0 = Some (- 20)"
  using dealias_cell[OF tie_facts(1,2,3)] tie_facts(5,6,7)
  by (auto simp add: tie_multiplier isnan_def isnan_int_def dadd_def dmul_def dbl_def)

lemma tie_minNyquist: "vnyMin tieDealiaser = minNyquist (vrad tieVolume)"
  by (simp add: minNyquist_def tieDealiaser_def tieVolume_def emptyMeasurement_def lessMin_def)

lemma minNyquist_least:
  assumes "0 < n" and "n \<le> nat (nel m)" and "\<forall>i < nat (nel m). \<exists>V. vnys m ! i = Some V"
  shows "\<exists>v. fold (\<lambda>i mn. case vnys m ! i of None \<Rightarrow> mn
                   | Some vNy \<Rightarrow> if lessMin vNy mn then Least vNy else mn) [0..<n] Infinity = Least v
       \<and> (\<exists>i < n. vnys m ! i = Some v) \<and> (\<forall>i < n. \<forall>V. vnys m ! i = Some V \<longrightarrow> v \<le> V)"
  using assms(1,2)
proof (induction n)
  case 0
  then show ?case by simp
next
  case (Suc n)
  let ?f = "\<lambda>i mn. case vnys m ! i of None \<Rightarrow> mn
                   | Some vNy \<Rightarrow> if lessMin vNy mn then Least vNy else mn"
  have "n < nat (nel m)" using Suc.prems by simp
  with assms(3) obtain Vn where Vn: "vnys m ! n = Some Vn" by blast
  show ?case
  proof (cases "n = 0")
    case True
    then show ?thesis using Vn by (simp add: lessMin_def)
  next
    case False
    then obtain v where v: "fold ?f [0..<n] Infinity = Least v"
      and ex: "\<exists>i < n. vnys m ! i = Some v" and all: "\<forall>i < n. \<forall>V. vnys m ! i = Some V \<longrightarrow> v \<le> V"
      using Suc.IH Suc.prems by auto
    show ?thesis
    proof (cases "Vn < v")
      case True
      then have "fold ?f [0..<Suc n] Infinity = Least Vn" using v Vn by (simp add: lessMin_def)
      moreover have "\<forall>i < Suc n. \<forall>V. vnys m ! i = Some V \<longrightarrow> Vn \<le> V"
        using all True Vn by (auto simp add: less_Suc_eq)
      ultimately show ?thesis using Vn by auto
    next
      case False
      then have "fold ?f [0..<Suc n] Infinity = Least v" using v Vn by (simp add: lessMin_def)
      moreover have "\<forall>i < Suc n. \<forall>V. vnys m ! i = Some V \<longrightarrow> v \<le> V"
        using all False Vn by (auto simp add: less_Suc_eq)
      moreover have "\<exists>i < Suc n. vnys m ! i = Some v" using ex less_Suc_eq by auto
      ultimately show ?thesis by auto
    qed
  qed
qed

lemma s3_ceiling: "zCeiling s3Settings s3Volume = 3 / 50"
  by (simp add: zCeiling_def nanminmax3_def s3Volume_def s3Settings_def emptyMeasurement_def
      minmaxStep_def numeral_nat)

lemma s3_dims:
  "nat (nel (vrad s3Volume)) = 1" "nat (naz (vrad s3Volume) ! 0) = 4" "nat (nr (vrad s3Volume) ! 0) = 2"
  "nat (nazMax (vrad s3Volume)) = 4" "nat (nrMax (vrad s3Volume)) = 2"
  by (simp_all add: s3Volume_def emptyMeasurement_def)

lemma s3_cells:
  assumes "j < 4"
  shows "at3 (zs (vrad s3Volume)) 0 j 0 = Some (3 / 200)" "at3 (zs (vrad s3Volume)) 0 j (Suc 0) = Some (3 / 50)"
    "at3 (meas (vrad s3Volume)) 0 j 0 = Some 1" "at3 (meas (vrad s3Volume)) 0 j (Suc 0) = Some 1"
    "at3 (Ds (s3Dealiaser dl)) 0 j 0 = Some 0" "at3 (Ds (s3Dealiaser dl)) 0 j (Suc 0) = Some 0"
  using assms by (simp_all add: s3Volume_def s3Dealiaser_def emptyMeasurement_def at3_def)

lemma s3_steps:
  assumes "j < 4"
  shows "sectorStep s3Settings (s3Dealiaser dl) s3Volume 0 j 0 (Inr [l]) = Inr [l @ [(0, j, 0)]]"
    and "sectorStep s3Settings (s3Dealiaser dl) s3Volume 0 j (Suc 0) (Inr zi) = Inr zi"
proof -
  have idx: "sectorIndex s3Settings s3Volume (3 / 200) = 0"
    by (simp add: sectorIndex_def s3Settings_def s3Volume_def int_cast_def)
  show "sectorStep s3Settings (s3Dealiaser dl) s3Volume 0 j 0 (Inr [l]) = Inr [l @ [(0, j, 0)]]"
    by (simp add: sectorStep_def s3_cells[OF assms] s3_ceiling isnan_def idx)
  show "sectorStep s3Settings (s3Dealiaser dl) s3Volume 0 j (Suc 0) (Inr zi) = Inr zi"
    by (simp add: sectorStep_def s3_cells[OF assms] s3_ceiling isnan_def)
qed

lemma s3_sectors:
  "determineHeightSectors s3Settings (s3Dealiaser dl) s3Volume
     = Inr (s3Volume\<lparr> zStarts := [0], zEnds := [100],
                      zIdxs := [[(0, 0, 0), (0, 1, 0), (0, 2, 0), (0, 3, 0)]] \<rparr>)"
proof -
  have cnt: "sectorCount s3Settings s3Volume = 1"
    by (simp add: sectorCount_def s3_ceiling) (simp add: s3Settings_def s3Volume_def int_cast_def)
  have lists: "[0..<1] = [0::nat]" "[0..<4] = [0, 1, 2, 3::nat]" "[0..<2] = [0, 1::nat]"
    by (simp_all add: upt_rec)
  have sw: "sweep (vrad s3Volume) (sectorStep s3Settings (s3Dealiaser dl) s3Volume) (Inr [[]])
      = Inr [[(0, 0, 0), (0, 1, 0), (0, 2, 0), (0, 3, 0)]]"
    by (simp add: sweep_def s3_dims lists s3_steps)
  have dz: "zSectorSize s3Settings = 100" "height s3Volume = 0"
    by (simp_all add: s3Settings_def s3Volume_def)
  show ?thesis
    unfolding determineHeightSectors_def Let_def cnt dz by (simp add: sw)
qed


lemma s3_models: "calculateWindModels fit s3Settings (s3Dealiaser dl) s3Sectors = s3Modelled"
  by (simp add: calculateWindModels_def s3Sectors_def s3Modelled_def s3Settings_def s3Volume_def
      emptyMeasurement_def cube_def numeral_nat)

lemma s3m_facts:
  "vrad s3Modelled = vrad s3Volume" "cube_ok (vrad s3Modelled)"
  "nyquistMax s3Settings (s3Dealiaser dl) = Inr 4"
  by (simp_all add: s3Modelled_def s3Sectors_def cube_ok_def s3Volume_def emptyMeasurement_def
      nyquistMax_def s3Dealiaser_def s3Settings_def int_cast_def)

lemma s3_multiplier:
  assumes "j < 4" and "k < 2"
  shows "at3 (snd (nyquistMultipliers 4 s3Modelled)) 0 j k = 0"
proof -
  have bin: "isBin (vrad s3Modelled) 0 j k"
    using assms by (simp add: s3m_facts(1) isBin_def s3_dims)
  have nan: "isnan (at3 (wModels s3Modelled) 0 j k)"
    using assms by (cases k) (simp_all add: s3Modelled_def at3_def isnan_def less_Suc_eq numeral_2_eq_2)
  have "fold (pick s3Modelled (0, j, k)) [- 4..4] (Infinity, iNaN) = (Infinity, iNaN)"
    by (rule pick_missing) (simp add: nan)
  then have "cellPair (nyquistMultipliers 4 s3Modelled) (0, j, k) = (Infinity, iNaN)"
    by (simp only: multipliers_cell(1)[OF s3m_facts(2) bin])
  then show ?thesis by (simp add: cellPair_def iNaN_def)
qed

lemma s3_dealiasStep:
  assumes "j < 4" and "k < 2"
  shows "dealiasStep s3Modelled (s3Dealiaser dl) (snd (nyquistMultipliers 4 s3Modelled)) 0 j k dv
       = put3 dv 0 j k (Some 1)"
proof -
  have k: "k = 0 \<or> k = Suc 0" using assms(2) by auto
  have m: "at3 (meas (vrad s3Modelled)) 0 j k = Some 1" "at3 (Ds (s3Dealiaser dl)) 0 j k = Some 0"
    using k s3_cells[OF assms(1)] by (auto simp add: s3m_facts(1))
  have v: "vnys (vrad s3Modelled) ! 0 = Some 10"
    by (simp add: s3m_facts(1) s3Volume_def emptyMeasurement_def)
  show ?thesis
    by (simp add: dealiasStep_def Let_def s3_multiplier[OF assms] m v isnan_def isnan_int_def
        dadd_def dmul_def dbl_def)
qed

lemma s3_dealias:
  "dealias s3Settings (s3Dealiaser dl) s3Modelled
     = Inr (s3Modelled\<lparr> dvrads := replicate 1 (replicate 4 [Some 1, Some 1]) \<rparr>)"
proof -
  have lists: "[0..<1] = [0::nat]" "[0..<4] = [0, 1, 2, 3::nat]" "[0..<2] = [0, 1::nat]"
    by (simp_all add: upt_rec)
  have sw: "sweep (vrad s3Volume)
        (dealiasStep s3Modelled (s3Dealiaser dl) (snd (nyquistMultipliers 4 s3Modelled)))
        (cube (Suc 0) 4 2 dNaN) = replicate 1 (replicate 4 [Some 1, Some 1])"
    by (simp add: sweep_def s3_dims lists s3_dealiasStep)
       (simp add: cube_def put3_def numeral_nat)
  show ?thesis
    by (simp add: dealias_def s3m_facts(3) Let_def split_beta s3m_facts(1) s3_dims sw)
qed


lemma eligible_index:
  assumes dz: "0 < zSectorSize st" and lo: "height d \<le> z" and hi: "z < zCeiling st d"
  shows "sectorIndex st d z = \<lfloor>(z - height d) / zSectorSize st\<rfloor>"
    and "sectorCount st d = \<lfloor>(zCeiling st d - height d) / zSectorSize st\<rfloor> + 1"
    and "0 \<le> sectorIndex st d z" and "sectorIndex st d z < sectorCount st d"
proof -
  have q0: "0 \<le> (z - height d) / zSectorSize st" using dz lo by simp
  have lt: "(z - height d) / zSectorSize st < (zCeiling st d - height d) / zSectorSize st"
    using dz hi by (simp add: divide_strict_right_mono)
  then have q1: "0 \<le> (zCeiling st d - height d) / zSectorSize st" using q0 by linarith
  show i: "sectorIndex st d z = \<lfloor>(z - height d) / zSectorSize st\<rfloor>"
    using q0 by (simp add: sectorIndex_def int_cast_def)
  show c: "sectorCount st d = \<lfloor>(zCeiling st d - height d) / zSectorSize st\<rfloor> + 1"
    using q1 by (simp add: sectorCount_def int_cast_def)
  show "0 \<le> sectorIndex st d z" using i q0 by simp
  have "\<lfloor>(z - height d) / zSectorSize st\<rfloor> \<le> \<lfloor>(zCeiling st d - height d) / zSectorSize st\<rfloor>"
    using lt by (intro floor_mono) simp
  then show "sectorIndex st d z < sectorCount st d" using i c by simp
qed

text \<open>
  C1. On scenario S3 the run of the dealiaser finds one height sector with 4 eligible bins,
  fewer than \<^verbatim>\<open>minGoodPoints = 100\<close>, so that no wind model is fitted and every \<^verbatim>\<open>wModels\<close>
  is NaN; \<^verbatim>\<open>dealias\<close> then returns without a fault and writes into every bin
  \<^verbatim>\<open>dvrads = meas + 2\<cdot>0\<cdot>vny\<close>, the measurement \<open>1\<close> itself and not NaN: the multiplier of a
  bin without model keeps its start value \<^verbatim>\<open>iNaN = 0\<close>, on which \<^verbatim>\<open>isnan\<close> is false.
\<close>

theorem dealias_S3_keeps_measurements:
  "determineHeightSectors s3Settings (s3Dealiaser dl) s3Volume = Inr s3Sectors
   \<and> calculateWindModels fit s3Settings (s3Dealiaser dl) s3Sectors = s3Modelled
   \<and> isallnan3 (wModels s3Modelled)
   \<and> meas (vrad s3Modelled) = replicate 1 (replicate 4 [Some 1, Some 1])
   \<and> dealias s3Settings (s3Dealiaser dl) s3Modelled
       = Inr (s3Modelled\<lparr> dvrads := replicate 1 (replicate 4 [Some 1, Some 1]) \<rparr>)"
proof -
  have "isallnan3 (wModels s3Modelled)"
    by (simp add: s3Modelled_def isallnan3_def isnan_def list_all_iff)
  moreover have "meas (vrad s3Modelled) = replicate 1 (replicate 4 [Some 1, Some 1])"
    by (simp add: s3m_facts(1)) (simp add: s3Volume_def emptyMeasurement_def)
  ultimately show ?thesis
    using s3_sectors[of dl] s3_models[of fit dl] s3_dealias[of dl] by (simp add: s3Sectors_def)
qed

text \<open>
  C3. For positive Nyquist velocities and a non-negative \<^verbatim>\<open>maxWind\<close>, with \<^verbatim>\<open>_vnyMin\<close> as
  \<^verbatim>\<open>calculateWindModelQtys\<close> computes it: \<^verbatim>\<open>_vnyMin\<close> is the least Nyquist velocity of
  the elevations, \<^verbatim>\<open>dealias\<close> returns, and in every bin whose \<^verbatim>\<open>dvrads\<close> is not NaN it is
  \<open>meas + 2\<cdot>k\<cdot>vny\<close> for an integer \<open>k\<close> with \<open>|k| \<le> \<lfloor>maxWind / vny_min\<rfloor>\<close>.
\<close>

theorem dealiased_is_nyquist_shift:
  assumes "cube_ok (vrad d)" and "isBin (vrad d) a b c"
    and "0 \<le> maxWind st"
    and "\<forall>i < nat (nel (vrad d)). \<exists>V. vnys (vrad d) ! i = Some V \<and> 0 < V"
    and "vnyMin dl = minNyquist (vrad d)"
  shows "\<exists>vmin d'. vnyMin dl = Least vmin
      \<and> (\<exists>i < nat (nel (vrad d)). vnys (vrad d) ! i = Some vmin)
      \<and> (\<forall>i < nat (nel (vrad d)). \<forall>V. vnys (vrad d) ! i = Some V \<longrightarrow> vmin \<le> V)
      \<and> dealias st dl d = Inr d'
      \<and> (\<forall>x. at3 (dvrads d') a b c = Some x \<longrightarrow>
           (\<exists>k m V. at3 (meas (vrad d)) a b c = Some m \<and> vnys (vrad d) ! a = Some V
               \<and> x = m + 2 * real_of_int k * V \<and> \<bar>k\<bar> \<le> \<lfloor>maxWind st / vmin\<rfloor>))"
proof -
  have "a < nat (nel (vrad d))" using assms(2) by (simp add: isBin_def)
  then have npos: "0 < nat (nel (vrad d))" by linarith
  have fin: "\<forall>i < nat (nel (vrad d)). \<exists>V. vnys (vrad d) ! i = Some V" using assms(4) by blast
  from minNyquist_least[OF npos order_refl fin] obtain vmin where
    vm: "minNyquist (vrad d) = Least vmin"
    and ex: "\<exists>i < nat (nel (vrad d)). vnys (vrad d) ! i = Some vmin"
    and all: "\<forall>i < nat (nel (vrad d)). \<forall>V. vnys (vrad d) ! i = Some V \<longrightarrow> vmin \<le> V"
    unfolding minNyquist_def by blast
  have vpos: "0 < vmin" using ex assms(4) by fastforce
  define N where "N = \<lfloor>maxWind st / vmin\<rfloor>"
  have N0: "0 \<le> N" using assms(3) vpos by (simp add: N_def)
  have ny: "nyquistMax st dl = Inr N"
    using vm assms(3,5) vpos by (simp add: nyquistMax_def int_cast_def N_def)
  from dealias_cell[OF assms(1,2) ny] obtain d' where
    d': "dealias st dl d = Inr d'"
    and cell: "at3 (dvrads d') a b c
        = (if \<not> (isnan (at3 (meas (vrad d)) a b c)
                 \<or> isnan_int (at3 (snd (nyquistMultipliers N d)) a b c)
                 \<or> isnan (at3 (Ds dl) a b c))
           then dadd (at3 (meas (vrad d)) a b c)
                  (dmul (dmul (Some 2) (dbl (at3 (snd (nyquistMultipliers N d)) a b c))) (vnys (vrad d) ! a))
           else dNaN)"
    by blast
  define k where "k = at3 (snd (nyquistMultipliers N d)) a b c"
  have "snd (cellPair (nyquistMultipliers N d) (a, b, c)) = snd (fold (pick d (a, b, c)) [- N..N] (Infinity, iNaN))"
    by (simp only: multipliers_cell(1)[OF assms(1,2), of N])
  then have "k = snd (fold (pick d (a, b, c)) [- N..N] (Infinity, iNaN))"
    by (simp add: k_def cellPair_def)
  then have "k = iNaN \<or> k \<in> set [- N..N]" using pick_member[of d "(a, b, c)" "[- N..N]" Infinity iNaN] by simp
  then have kb: "\<bar>k\<bar> \<le> N" using N0 by (auto simp add: iNaN_def)
  obtain V where V: "vnys (vrad d) ! a = Some V" using assms(2,4) by (auto simp add: isBin_def)
  have "\<exists>k m V. at3 (meas (vrad d)) a b c = Some m \<and> vnys (vrad d) ! a = Some V
               \<and> x = m + 2 * real_of_int k * V \<and> \<bar>k\<bar> \<le> N" if x: "at3 (dvrads d') a b c = Some x" for x
  proof -
    from x cell obtain m where m: "at3 (meas (vrad d)) a b c = Some m"
      by (auto simp add: isnan_def split: if_splits)
    from x cell m V have "x = m + 2 * real_of_int k * V"
      by (auto simp add: k_def dadd_def dmul_def dbl_def isnan_def split: if_splits)
    with m V kb show ?thesis by blast
  qed
  then show ?thesis using vm assms(5) ex all d' unfolding N_def by auto
qed


theorem dealiased_is_nyquist_shift_witness:
  "cube_ok (vrad tieVolume) \<and> isBin (vrad tieVolume) 0 0 0 \<and> 0 \<le> maxWind tieSettings
   \<and> nat (nel (vrad tieVolume)) = 1 \<and> vnys (vrad tieVolume) ! 0 = Some 10 \<and> (0::real) < 10
   \<and> vnyMin tieDealiaser = minNyquist (vrad tieVolume)
   \<and> vnyMin tieDealiaser = Least 10
   \<and> (\<exists>d' k. dealias tieSettings tieDealiaser tieVolume = Inr d'
         \<and> at3 (dvrads d') 0 0 0 = Some (- 20)
         \<and> - 20 = 0 + 2 * real_of_int k * 10 \<and> \<bar>k\<bar> \<le> \<lfloor>maxWind tieSettings / 10\<rfloor>)"
proof -
  have h3: "0 \<le> maxWind tieSettings" by (simp add: tieSettings_def)
  have one: "nat (nel (vrad tieVolume)) = 1" by (simp add: tieVolume_def emptyMeasurement_def)
  have h4: "\<forall>i < nat (nel (vrad tieVolume)). \<exists>V. vnys (vrad tieVolume) ! i = Some V \<and> 0 < V"
    using one tie_facts(6) by simp
  from dealiased_is_nyquist_shift [OF tie_facts(1,2) h3 h4 tie_minNyquist]
  obtain vmin d' where
    vm: "vnyMin tieDealiaser = Least vmin"
    and d': "dealias tieSettings tieDealiaser tieVolume = Inr d'"
    and sh: "\<forall>x. at3 (dvrads d') 0 0 0 = Some x \<longrightarrow>
           (\<exists>k m V. at3 (meas (vrad tieVolume)) 0 0 0 = Some m \<and> vnys (vrad tieVolume) ! 0 = Some V
               \<and> x = m + 2 * real_of_int k * V \<and> \<bar>k\<bar> \<le> \<lfloor>maxWind tieSettings / vmin\<rfloor>)"
    by blast
  have v10: "vmin = 10" using vm by (simp add: tieDealiaser_def)
  have dv: "at3 (dvrads d') 0 0 0 = Some (- 20)" using tie_dvrads d' by auto
  from sh dv obtain k m V where
    "at3 (meas (vrad tieVolume)) 0 0 0 = Some m" "vnys (vrad tieVolume) ! 0 = Some V"
    "- 20 = m + 2 * real_of_int k * V" "\<bar>k\<bar> \<le> \<lfloor>maxWind tieSettings / vmin\<rfloor>"
    by blast
  then have "- 20 = 0 + 2 * real_of_int k * 10 \<and> \<bar>k\<bar> \<le> \<lfloor>maxWind tieSettings / 10\<rfloor>"
    using tie_facts(5,6) v10 by simp
  with tie_facts(1,2,6) h3 one tie_minNyquist vm v10 d' dv show ?thesis by auto
qed

text \<open>
  Rounding can part two multipliers whose exact distances are equal. With the doubles
  nearest to \<open>-3.2\<close>, \<open>5.7\<close> and \<open>-8.9\<close> as measurement, Nyquist velocity and model, the exact
  distances at \<open>n = -1\<close> and \<open>n = 0\<close> are the same number, and the computed misfit at \<open>n = -1\<close>
  is the next double above the one at \<open>n = 0\<close>: the sum \<^verbatim>\<open>m + 2.0*vny*n\<close> falls midway between
  two doubles and goes to the even one.
\<close>

lemma rounding_parts_a_tie:
  fixes m V w :: real
  defines "m \<equiv> - 7205759403792794 / 2 ^ 51" and "V \<equiv> 6417629469002957 / 2 ^ 50"
    and "w \<equiv> - 5010254585449677 / 2 ^ 49"
  shows "fl (- 3.2) = Some m \<and> fl 5.7 = Some V \<and> fl (- 8.9) = Some w
     \<and> \<bar>m + 2 * V * real_of_int (- 1) - w\<bar> = \<bar>m + 2 * V * real_of_int 0 - w\<bar>
     \<and> misfit (Some m) (Some V) (- 1) (Some w) = Some (6417629469002958 / 2 ^ 50)
     \<and> misfit (Some m) (Some V) 0 (Some w) = Some (6417629469002957 / 2 ^ 50)"
proof -
  have lit: "fl (- 3.2) = Some m" "fl 5.7 = Some V" "fl (- 8.9) = Some w"
    unfolding m_def V_def w_def
    using fl_dyadicI[of 51 "- 3.2" "- 7205759403792794"] fl_dyadicI[of 50 "5.7" 6417629469002957]
      fl_dyadicI[of 49 "- 8.9" "- 5010254585449677"]
    by simp_all
  have s1: "fmul (Some 2) (Some V) = Some (6417629469002957 / 2 ^ 49)"
    unfolding V_def using fl_dyadicI[of 49 "2 * (6417629469002957 / 2 ^ 50)" 6417629469002957]
    by (simp add: fmul_def)
  have s2: "fmul (Some (6417629469002957 / 2 ^ 49)) (dbl (- 1)) = Some (- 6417629469002957 / 2 ^ 49)"
    using fl_dyadicI[of 49 "- (6417629469002957 / 2 ^ 49)" "- 6417629469002957"]
    by (simp add: fmul_def dbl_def)
  have s2z: "fmul (Some (6417629469002957 / 2 ^ 49)) (dbl 0) = Some 0"
    by (simp add: fmul_def dbl_def fl_small(1))
  have s3: "fadd (Some m) (Some (- 6417629469002957 / 2 ^ 49)) = Some (- 8219069319951156 / 2 ^ 49)"
    unfolding m_def
    using fl_dyadic_tieI[of 49 "- 7205759403792794 / 2 ^ 51 + - 6417629469002957 / 2 ^ 49"
        "- 8219069319951156"]
    by (simp add: fadd_def)
  have s3z: "fadd (Some m) (Some 0) = Some m"
    unfolding m_def using fl_dyadicI[of 51 "- 7205759403792794 / 2 ^ 51" "- 7205759403792794"]
    by (simp add: fadd_def)
  have s4: "fsub (Some (- 8219069319951156 / 2 ^ 49)) (Some w) = Some (- 6417629469002958 / 2 ^ 50)"
    unfolding w_def
    using fl_dyadicI[of 50 "- 8219069319951156 / 2 ^ 49 - - 5010254585449677 / 2 ^ 49"
        "- 6417629469002958"]
    by (simp add: fsub_def)
  have s4z: "fsub (Some m) (Some w) = Some (6417629469002957 / 2 ^ 50)"
    unfolding m_def w_def
    using fl_dyadicI[of 50 "- 7205759403792794 / 2 ^ 51 - - 5010254585449677 / 2 ^ 49"
        6417629469002957]
    by (simp add: fsub_def)
  have a: "misfit (Some m) (Some V) (- 1) (Some w) = Some (6417629469002958 / 2 ^ 50)"
    by (simp only: misfit_def s1 s2 s3 s4) (simp add: dabs_def)
  have b: "misfit (Some m) (Some V) 0 (Some w) = Some (6417629469002957 / 2 ^ 50)"
    by (simp only: misfit_def s1 s2z s3z s4z) (simp add: dabs_def)
  have "\<bar>m + 2 * V * real_of_int (- 1) - w\<bar> = \<bar>m + 2 * V * real_of_int 0 - w\<bar>"
    by (simp add: m_def V_def w_def)
  with lit a b show ?thesis by simp
qed

text \<open>
  C4 (as amended). For every bin with model and measurement defined and a candidate in
  \<open>[-N, N]\<close> whose misfit is a number, the multiplier \<open>k\<close> that the search leaves in \<^verbatim>\<open>ns\<close> lies
  in \<open>[-N, N]\<close>, and its misfit \<^verbatim>\<open>abs(meas + 2.0*vny*k - wModels)\<close>, as the program computes it
  in doubles, is a number and the least of the computed misfits over \<open>[-N, N]\<close>; among the
  multipliers whose computed misfit is that least value, \<open>k\<close> is the smallest one (the first
  met in the ascending loop). The exact distance \<open>|meas + 2\<cdot>k\<cdot>vny - wModels|\<close> of \<open>k\<close> is the
  least exact distance over the candidates with a computed misfit up to the rounding of
  the four operations, twice \<open>(|meas| + 2\<cdot>N\<cdot>|vny| + |wModels|) / 2 ^ 49 + (N + 1) / 2 ^ 1072\<close>.
\<close>

theorem multiplier_first_minimum:
  assumes "cube_ok (vrad d)" and "isBin (vrad d) a b c"
    and "at3 (wModels d) a b c = Some w" and "at3 (meas (vrad d)) a b c = Some m"
    and "- N \<le> n0" and "n0 \<le> N" and "misfit (Some m) (vnys (vrad d) ! a) n0 (Some w) \<noteq> None"
  shows "\<exists>k c0. at3 (snd (nyquistMultipliers N d)) a b c = k \<and> - N \<le> k \<and> k \<le> N
     \<and> misfit (Some m) (vnys (vrad d) ! a) k (Some w) = Some c0
     \<and> (\<forall>n c'. - N \<le> n \<and> n \<le> N \<and> misfit (Some m) (vnys (vrad d) ! a) n (Some w) = Some c'
            \<longrightarrow> c0 \<le> c')
     \<and> (\<forall>n. - N \<le> n \<and> n \<le> N \<and> misfit (Some m) (vnys (vrad d) ! a) n (Some w) = Some c0
            \<longrightarrow> k \<le> n)
     \<and> (\<forall>V n c'. vnys (vrad d) ! a = Some V \<and> - N \<le> n \<and> n \<le> N
              \<and> misfit (Some m) (Some V) n (Some w) = Some c'
            \<longrightarrow> \<bar>m + 2 * V * real_of_int k - w\<bar>
                \<le> \<bar>m + 2 * V * real_of_int n - w\<bar>
                  + 2 * ((\<bar>m\<bar> + 2 * \<bar>V\<bar> * real_of_int N + \<bar>w\<bar>) / 2 ^ 49 + (real_of_int N + 1) / 2 ^ 1072))"
proof -
  let ?mu = "\<lambda>n. misfit (Some m) (vnys (vrad d) ! a) n (Some w)"
  have "n0 \<in> set [- N..N]" using assms(5,6) by simp
  then have "\<not> (\<forall>n\<in>set [- N..N]. ?mu n = None)" using assms(7) by auto
  with pick_argmin[OF assms(3,4) sorted_upto distinct_upto, of "- N" N iNaN] obtain k c0 where
    f: "fold (pick d (a, b, c)) [- N..N] (Infinity, iNaN) = (Least c0, k)"
    and mem: "k \<in> set [- N..N]" and at: "?mu k = Some c0"
    and mn: "\<forall>n\<in>set [- N..N]. \<forall>c'. ?mu n = Some c' \<longrightarrow> c0 \<le> c'"
    and tie: "\<forall>n\<in>set [- N..N]. ?mu n = Some c0 \<longrightarrow> k \<le> n"
    by blast
  have kr: "- N \<le> k" "k \<le> N" using mem by simp_all
  have k: "at3 (snd (nyquistMultipliers N d)) a b c = k"
    using multipliers_cell(1)[OF assms(1,2), of N] f by (simp add: cellPair_def)
  have near: "\<bar>m + 2 * V * real_of_int k - w\<bar>
        \<le> \<bar>m + 2 * V * real_of_int n - w\<bar>
          + 2 * ((\<bar>m\<bar> + 2 * \<bar>V\<bar> * real_of_int N + \<bar>w\<bar>) / 2 ^ 49 + (real_of_int N + 1) / 2 ^ 1072)"
    if h: "vnys (vrad d) ! a = Some V \<and> - N \<le> n \<and> n \<le> N \<and> misfit (Some m) (Some V) n (Some w) = Some c'"
    for V n c'
  proof -
    have V: "vnys (vrad d) ! a = Some V" and nr: "- N \<le> n" "n \<le> N"
      and c': "misfit (Some m) (Some V) n (Some w) = Some c'"
      using h by simp_all
    have atk: "misfit (Some m) (Some V) k (Some w) = Some c0" using at V by simp
    have le: "c0 \<le> c'" using mn nr c' V by simp
    define E where "E = (\<bar>m\<bar> + 2 * \<bar>V\<bar> * real_of_int N + \<bar>w\<bar>) / 2 ^ 49 + (real_of_int N + 1) / 2 ^ 1072"
    define dk where "dk = \<bar>m + 2 * V * real_of_int k - w\<bar>"
    define dn where "dn = \<bar>m + 2 * V * real_of_int n - w\<bar>"
    have "\<bar>c0 - dk\<bar> \<le> E" "\<bar>c' - dn\<bar> \<le> E"
      unfolding E_def dk_def dn_def
      using misfit_error_upto[OF atk kr] misfit_error_upto[OF c' nr] by simp_all
    then have "dk \<le> dn + 2 * E" using le by linarith
    then show ?thesis unfolding E_def dk_def dn_def .
  qed
  have mn': "\<forall>n c'. - N \<le> n \<and> n \<le> N \<and> ?mu n = Some c' \<longrightarrow> c0 \<le> c'" using mn by auto
  have tie': "\<forall>n. - N \<le> n \<and> n \<le> N \<and> ?mu n = Some c0 \<longrightarrow> k \<le> n" using tie by auto
  from k kr at mn' tie' near show ?thesis by blast
qed

theorem multiplier_first_minimum_witness:
  "cube_ok (vrad tieVolume) \<and> isBin (vrad tieVolume) 0 0 0
   \<and> at3 (wModels tieVolume) 0 0 0 = Some (- 10) \<and> at3 (meas (vrad tieVolume)) 0 0 0 = Some 0
   \<and> - 1 \<le> (0::int) \<and> (0::int) \<le> 1
   \<and> misfit (Some 0) (vnys (vrad tieVolume) ! 0) 0 (Some (- 10)) \<noteq> None
   \<and> at3 (snd (nyquistMultipliers 1 tieVolume)) 0 0 0 = - 1
   \<and> misfit (Some 0) (vnys (vrad tieVolume) ! 0) (- 1) (Some (- 10)) = Some 10
   \<and> misfit (Some 0) (vnys (vrad tieVolume) ! 0) 0 (Some (- 10)) = Some 10"
proof -
  have h6: "- 1 \<le> (0::int)" and h7: "(0::int) \<le> 1" by simp_all
  have mf: "misfit (Some 0) (vnys (vrad tieVolume) ! 0) (- 1) (Some (- 10)) = Some 10"
    "misfit (Some 0) (vnys (vrad tieVolume) ! 0) 0 (Some (- 10)) = Some 10"
    "misfit (Some 0) (vnys (vrad tieVolume) ! 0) 1 (Some (- 10)) = Some 30"
    by (simp_all add: tie_facts(6) tie_misfit)
  have h8: "misfit (Some 0) (vnys (vrad tieVolume) ! 0) 0 (Some (- 10)) \<noteq> None"
    by (simp add: mf)
  from multiplier_first_minimum [OF tie_facts(1,2,4,5) h6 h7 h8]
  obtain k c0 where
    k: "at3 (snd (nyquistMultipliers 1 tieVolume)) 0 0 0 = k" and r: "- 1 \<le> k" "k \<le> 1"
    and at: "misfit (Some 0) (vnys (vrad tieVolume) ! 0) k (Some (- 10)) = Some c0"
    and mn: "\<forall>n c'. - 1 \<le> n \<and> n \<le> 1 \<and> misfit (Some 0) (vnys (vrad tieVolume) ! 0) n (Some (- 10)) = Some c'
            \<longrightarrow> c0 \<le> c'"
    and tie: "\<forall>n. - 1 \<le> n \<and> n \<le> 1 \<and> misfit (Some 0) (vnys (vrad tieVolume) ! 0) n (Some (- 10)) = Some c0
            \<longrightarrow> k \<le> n"
    by blast
  have c10: "c0 \<le> 10" using mn[rule_format, of 0 10] mf(2) by simp
  have "k = - 1 \<or> k = 0 \<or> k = 1" using r by linarith
  moreover have "k \<noteq> 1" using at mf(3) c10 by auto
  moreover have "k \<noteq> 0"
  proof
    assume k0: "k = 0"
    then have "c0 = 10" using at mf(2) by simp
    then have "k \<le> - 1" using tie[rule_format, of "- 1"] mf(1) by simp
    then show False using k0 by simp
  qed
  ultimately have k1: "k = - 1" by simp
  from tie_facts(1,2,4,5) h6 h7 h8 k k1 mf(1,2) show ?thesis by simp
qed

theorem multiplier_smaller_abs_counterexample:
  "nyquistMax tieSettings tieDealiaser = Inr 1
   \<and> at3 (snd (nyquistMultipliers 1 tieVolume)) 0 0 0 = - 1
   \<and> misfit (Some 0) (Some 10) (- 1) (Some (- 10)) = Some 10
   \<and> misfit (Some 0) (Some 10) 0 (Some (- 10)) = Some 10
   \<and> \<bar>0 + 2 * 10 * real_of_int (- 1) - (- 10)\<bar> = \<bar>0 + 2 * 10 * real_of_int 0 - (- 10) :: real\<bar>
   \<and> \<bar>0 :: int\<bar> < \<bar>- 1\<bar>"
  using tie_facts(3) tie_multiplier tie_misfit(1,2) by simp

text \<open>
  C10. For a positive sector size and heights not below the site height, every eligible
  bin (height, measurement and \<open>D\<close> not NaN, height below the ceiling) has the sector index
  \<open>\<lfloor>(z - site_height) / \<Delta>z\<rfloor>\<close>, which lies in \<open>[0, nl)\<close> for
  \<open>nl = \<lfloor>(zceil - site_height) / \<Delta>z\<rfloor> + 1\<close>; so \<^verbatim>\<open>determineHeightSectors\<close> never writes
  outside \<^verbatim>\<open>zIdxs\<close>, and it returns with \<open>nl\<close> sectors whenever \<open>nl\<close> is not negative.
\<close>

theorem sector_index_in_bounds:
  assumes "0 < zSectorSize st"
    and "\<forall>i j k z. isBin (vrad d) i j k \<and> at3 (zs (vrad d)) i j k = Some z \<longrightarrow> height d \<le> z"
  shows "(\<forall>i j k z. isBin (vrad d) i j k \<and> at3 (zs (vrad d)) i j k = Some z
            \<and> \<not> isnan (at3 (meas (vrad d)) i j k) \<and> \<not> isnan (at3 (Ds dl) i j k)
            \<and> z < zCeiling st d
          \<longrightarrow> sectorIndex st d z = \<lfloor>(z - height d) / zSectorSize st\<rfloor>
            \<and> sectorCount st d = \<lfloor>(zCeiling st d - height d) / zSectorSize st\<rfloor> + 1
            \<and> 0 \<le> sectorIndex st d z \<and> sectorIndex st d z < sectorCount st d)
       \<and> determineHeightSectors st dl d \<noteq> Inl OutOfRange
       \<and> (0 \<le> sectorCount st d \<longrightarrow>
            (\<exists>d'. determineHeightSectors st dl d = Inr d' \<and> int (length (zIdxs d')) = sectorCount st d))"
proof -
  have bins: "sectorIndex st d z = \<lfloor>(z - height d) / zSectorSize st\<rfloor>
            \<and> sectorCount st d = \<lfloor>(zCeiling st d - height d) / zSectorSize st\<rfloor> + 1
            \<and> 0 \<le> sectorIndex st d z \<and> sectorIndex st d z < sectorCount st d"
    if "isBin (vrad d) i j k" "at3 (zs (vrad d)) i j k = Some z" "z < zCeiling st d" for i j k z
  proof -
    have "height d \<le> z" using assms(2) that(1,2) by blast
    from eligible_index[OF assms(1) this that(3)] show ?thesis by simp
  qed
  let ?nl = "sectorCount st d"
  let ?Q = "\<lambda>s :: fault + Triple list list. \<exists>zi. s = Inr zi \<and> int (length zi) = ?nl"
  have run: "?Q (sweep (vrad d) (sectorStep st dl d) (Inr (replicate (nat ?nl) [])))" if nl: "0 \<le> ?nl"
  proof (rule sweep_invariant[where Q = ?Q])
    show "?Q (Inr (replicate (nat ?nl) []))" using nl by simp
  next
    fix i j k and s :: "fault + Triple list list"
    assume b: "i < nat (nel (vrad d))" "j < nat (naz (vrad d) ! i)" "k < nat (nr (vrad d) ! i)"
      and q: "?Q s"
    then obtain zi where zi: "s = Inr zi" "int (length zi) = ?nl" by blast
    have bin: "isBin (vrad d) i j k" using b by (simp add: isBin_def)
    show "?Q (sectorStep st dl d i j k s)"
    proof (cases "at3 (zs (vrad d)) i j k")
      case None
      then show ?thesis using zi by (simp add: sectorStep_def)
    next
      case (Some z)
      show ?thesis
      proof (cases "\<not> (isnan (at3 (meas (vrad d)) i j k) \<or> isnan (at3 (Ds dl) i j k)) \<and> z < zCeiling st d")
        case True
        then have "z < zCeiling st d" by simp
        from bins[OF bin Some this]
        have "0 \<le> sectorIndex st d z \<and> sectorIndex st d z < ?nl" by blast
        then show ?thesis using zi Some True by (simp add: sectorStep_def Let_def)
      next
        case False
        then show ?thesis using zi Some by (auto simp add: sectorStep_def)
      qed
    qed
  qed
  have dz: "zSectorSize st \<noteq> 0" using assms(1) by simp
  have ok: "\<exists>d'. determineHeightSectors st dl d = Inr d' \<and> int (length (zIdxs d')) = ?nl" if nl: "0 \<le> ?nl"
  proof -
    from run[OF nl] obtain zi where
      zi: "sweep (vrad d) (sectorStep st dl d) (Inr (replicate (nat ?nl) [])) = Inr zi"
      and len: "int (length zi) = ?nl"
      by blast
    show ?thesis using dz nl zi len by (simp add: determineHeightSectors_def Let_def)
  qed
  have nofault: "determineHeightSectors st dl d \<noteq> Inl OutOfRange"
  proof (cases "0 \<le> ?nl")
    case True
    then show ?thesis using ok by auto
  next
    case False
    then show ?thesis using dz by (simp add: determineHeightSectors_def Let_def)
  qed
  show ?thesis using bins ok nofault by blast
qed

theorem sector_index_in_bounds_witness:
  "0 < zSectorSize s3Settings
   \<and> isBin (vrad s3Volume) 0 0 0 \<and> at3 (zs (vrad s3Volume)) 0 0 0 = Some (3 / 200)
   \<and> height s3Volume \<le> 3 / 200
   \<and> \<not> isnan (at3 (meas (vrad s3Volume)) 0 0 0) \<and> \<not> isnan (at3 (Ds (s3Dealiaser tieDealiaser)) 0 0 0)
   \<and> 3 / 200 < zCeiling s3Settings s3Volume
   \<and> 0 \<le> sectorIndex s3Settings s3Volume (3 / 200)
   \<and> sectorIndex s3Settings s3Volume (3 / 200) < sectorCount s3Settings s3Volume
   \<and> 0 \<le> sectorCount s3Settings s3Volume
   \<and> (\<exists>d'. determineHeightSectors s3Settings (s3Dealiaser tieDealiaser) s3Volume = Inr d'
          \<and> int (length (zIdxs d')) = sectorCount s3Settings s3Volume)"
proof -
  have h1: "0 < zSectorSize s3Settings" by (simp add: s3Settings_def)
  have h2: "\<forall>i j k z. isBin (vrad s3Volume) i j k \<and> at3 (zs (vrad s3Volume)) i j k = Some z
        \<longrightarrow> height s3Volume \<le> z"
  proof (intro allI impI)
    fix i j k z
    assume a: "isBin (vrad s3Volume) i j k \<and> at3 (zs (vrad s3Volume)) i j k = Some z"
    then have i: "i = 0" and j: "j < 4" and k: "k = 0 \<or> k = Suc 0"
      using s3_dims by (auto simp add: isBin_def)
    then have "z = 3 / 200 \<or> z = 3 / 50" using a s3_cells(1,2)[OF j] by auto
    then show "height s3Volume \<le> z" by (auto simp add: s3Volume_def)
  qed
  have bin: "isBin (vrad s3Volume) 0 0 0" by (simp add: isBin_def s3_dims)
  have cells: "at3 (zs (vrad s3Volume)) 0 0 0 = Some (3 / 200)"
    "\<not> isnan (at3 (meas (vrad s3Volume)) 0 0 0)" "\<not> isnan (at3 (Ds (s3Dealiaser tieDealiaser)) 0 0 0)"
    by (simp_all add: s3_cells isnan_def)
  have lo: "height s3Volume \<le> 3 / 200" by (simp add: s3Volume_def)
  have hi: "3 / 200 < zCeiling s3Settings s3Volume" by (simp add: s3_ceiling)
  note t = sector_index_in_bounds [OF h1 h2, of "s3Dealiaser tieDealiaser"]
  from t bin cells hi
  have idx: "0 \<le> sectorIndex s3Settings s3Volume (3 / 200)
      \<and> sectorIndex s3Settings s3Volume (3 / 200) < sectorCount s3Settings s3Volume"
    by blast
  then have cnt: "0 \<le> sectorCount s3Settings s3Volume" by linarith
  with t have "\<exists>d'. determineHeightSectors s3Settings (s3Dealiaser tieDealiaser) s3Volume = Inr d'
          \<and> int (length (zIdxs d')) = sectorCount s3Settings s3Volume"
    by blast
  with h1 bin cells lo hi idx cnt show ?thesis by blast
qed


end
